theory Spec2Isabelle
  imports Complex_Main "HOL-Library.Sublist" "HOL-Library.AList"
begin

section \<open>The WebP to JPEG converter component (HelloWorld.vue)\<close>

text \<open>
  The component of \<^verbatim>\<open>src/components/HelloWorld.vue\<close> is embedded as functions on an
  explicit component state. Strings are lists of 8-bit characters; the indices of the loop
  are natural numbers. What the browser does (reading a file, decoding an image, encoding a
  canvas, building the archive, starting the download) is not code of the component: it is
  taken as a parameter, one function per platform call, whose value says which handler of
  the source runs.
\<close>

subsection \<open>Data model\<close>

text \<open>A \<^verbatim>\<open>File\<close> of the file picker: its name, its declared media type, its bytes.\<close>

record File =
  file_name :: string
  file_type :: string
  file_bytes :: "nat list"

text \<open>The object passed to \<^verbatim>\<open>resolve\<close> in \<^verbatim>\<open>convertWebpToJpeg\<close> (lines 127-131).\<close>

record conversion_result =
  name :: string
  url :: string
  originalFile :: File

text \<open>The component's \<^verbatim>\<open>data()\<close> (lines 57-64).\<close>

record state =
  selectedFiles :: "File list"
  convertedImages :: "conversion_result list"
  isConverting :: bool
  error :: "string option"

definition data :: state where
  "data = \<lparr>selectedFiles = [], convertedImages = [], isConverting = False, error = None\<rparr>"

subsection \<open>String operations of the source\<close>

text \<open>
  \<^verbatim>\<open>String.prototype.toLowerCase\<close>, on the letters \<^verbatim>\<open>A\<close> to \<^verbatim>\<open>Z\<close>. Every other
  character is left as it is: none of them is mapped to one of the characters of
  \<^verbatim>\<open>.webp\<close>, which is all the source compares the result with.
\<close>

definition lower_char :: "char \<Rightarrow> char" where
  "lower_char c =
     (let n = (of_char c :: nat) in if 65 \<le> n \<and> n \<le> 90 then char_of (n + 32) else c)"

definition toLowerCase :: "string \<Rightarrow> string" where
  "toLowerCase s = map lower_char s"

text \<open>\<^verbatim>\<open>String.prototype.endsWith\<close>: the last characters of the string, compared.\<close>

definition endsWith :: "string \<Rightarrow> string \<Rightarrow> bool" where
  "endsWith s t = (length t \<le> length s \<and> drop (length s - length t) s = t)"

text \<open>
  \<^verbatim>\<open>String.prototype.split\<close> with a one-character separator: the pieces between the
  separators, at least one piece.
\<close>

fun js_split :: "char \<Rightarrow> string \<Rightarrow> string list" where
  "js_split c [] = [[]]"
| "js_split c (x # xs) =
     (if x = c then [] # js_split c xs
      else (case js_split c xs of
              [] \<Rightarrow> [[x]]
            | p # ps \<Rightarrow> (x # p) # ps))"

text \<open>Indexing a JavaScript array: \<^verbatim>\<open>undefined\<close> out of range.\<close>

definition js_index :: "'a list \<Rightarrow> nat \<Rightarrow> 'a option" where
  "js_index xs i = (if i < length xs then Some (xs ! i) else None)"

text \<open>
  The decimal digits of an index, as the template literal \<^verbatim>\<open>${index}\<close> prints a
  non-negative integer.
\<close>

definition digit :: "nat \<Rightarrow> char" where
  "digit d = char_of (48 + d)"

fun toString :: "nat \<Rightarrow> string" where
  "toString n = (if n < 10 then [digit n] else toString (n div 10) @ [digit (n mod 10)])"

declare toString.simps [simp del]

subsection \<open>Selection filter: \<^verbatim>\<open>handleFileSelect\<close> (lines 66-77)\<close>

definition is_webp :: "File \<Rightarrow> bool" where
  "is_webp file =
     (file_type file = ''image/webp'' \<or> endsWith (toLowerCase (file_name file)) ''.webp'')"

definition handleFileSelect :: "File list \<Rightarrow> state \<Rightarrow> state" where
  "handleFileSelect files s =
     s\<lparr>selectedFiles := filter is_webp files,
       convertedImages := [],
       error := None\<rparr>"

text \<open>
  The predicate as the specification words it: the declared media type is
  \<^verbatim>\<open>image/webp\<close>, or the file name ends in some text that is \<^verbatim>\<open>.webp\<close> up to the
  case of its letters.
\<close>

definition same_ignoring_case :: "string \<Rightarrow> string \<Rightarrow> bool" where
  "same_ignoring_case a b = (toLowerCase a = toLowerCase b)"

definition webp_by_spec :: "File \<Rightarrow> bool" where
  "webp_by_spec f =
     (file_type f = ''image/webp'' \<or>
      (\<exists>t \<in> set (suffixes (file_name f)). same_ignoring_case t ''.webp''))"

subsection \<open>Converter: \<^verbatim>\<open>convertWebpToJpeg\<close> (lines 102-152)\<close>

text \<open>
  The promise an asynchronous call returns: it is resolved with a value, rejected with an
  error (kept as its \<^verbatim>\<open>message\<close>), or it stays pending because neither \<^verbatim>\<open>resolve\<close>
  nor \<^verbatim>\<open>reject\<close> is ever called.
\<close>

datatype 'a promise = Resolved 'a | Rejected string | Pending

text \<open>
  The events of a \<^verbatim>\<open>FileReader\<close> after \<^verbatim>\<open>readAsDataURL\<close>: \<^verbatim>\<open>load\<close> with the data URL
  of the file, \<^verbatim>\<open>error\<close>, or no event. The events of an \<^verbatim>\<open>Image\<close> after its
  \<^verbatim>\<open>src\<close> is set: \<^verbatim>\<open>load\<close> with the decoded image, \<^verbatim>\<open>error\<close>, or no event.
\<close>

record Image =
  src :: string
  width :: nat
  height :: nat

record canvas =
  canvas_width :: nat
  canvas_height :: nat
  drawn :: "(Image \<times> nat \<times> nat) list"

datatype reader_event = ReaderLoad string | ReaderError | NoReaderEvent

datatype image_event = ImageLoad Image | ImageError | NoImageEvent

text \<open>
  The platform calls of the converter. \<^verbatim>\<open>getContext\<close> gives a drawing context or
  \<^verbatim>\<open>null\<close> (\<open>False\<close>), \<^verbatim>\<open>drawImage\<close> may throw (\<open>Some\<close>, the message of the
  exception), \<^verbatim>\<open>toDataURL\<close> returns the data URL or throws (\<open>Inl\<close>).
\<close>

record platform =
  readAsDataURL :: "File \<Rightarrow> reader_event"
  set_src :: "string \<Rightarrow> image_event"
  getContext :: "canvas \<Rightarrow> string \<Rightarrow> bool"
  drawImage_throws :: "canvas \<Rightarrow> Image \<Rightarrow> string option"
  toDataURL :: "canvas \<Rightarrow> string \<Rightarrow> rat \<Rightarrow> string + string"

definition createElement_canvas :: canvas where
  "createElement_canvas = \<lparr>canvas_width = 300, canvas_height = 150, drawn = []\<rparr>"

definition drawImage :: "Image \<Rightarrow> nat \<Rightarrow> nat \<Rightarrow> canvas \<Rightarrow> canvas" where
  "drawImage img x y c = c\<lparr>drawn := drawn c @ [(img, x, y)]\<rparr>"

text \<open>
  The statements of lines 111-117 run in the \<^verbatim>\<open>onload\<close> handler of the image before the
  \<^verbatim>\<open>try\<close> of line 120. When the context is \<^verbatim>\<open>null\<close> (so that \<^verbatim>\<open>ctx.drawImage\<close>
  throws) or \<^verbatim>\<open>drawImage\<close> throws, the exception leaves the handler, neither
  \<^verbatim>\<open>resolve\<close> nor \<^verbatim>\<open>reject\<close> is called, and the promise stays pending.
\<close>

definition convertWebpToJpeg :: "platform \<Rightarrow> File \<Rightarrow> nat \<Rightarrow> conversion_result promise" where
  "convertWebpToJpeg P file index =
     (case readAsDataURL P file of
        ReaderError \<Rightarrow> Rejected (''Failed to read file: '' @ file_name file)
      | NoReaderEvent \<Rightarrow> Pending
      | ReaderLoad result \<Rightarrow>
          (case set_src P result of
             ImageError \<Rightarrow> Rejected (''Failed to load image: '' @ file_name file)
           | NoImageEvent \<Rightarrow> Pending
           | ImageLoad img \<Rightarrow>
               (let canvas = createElement_canvas\<lparr>canvas_width := width img,
                                                  canvas_height := height img\<rparr>
                in if \<not> getContext P canvas ''2d'' then Pending
                   else
                     (case drawImage_throws P canvas img of
                        Some err \<Rightarrow> Pending
                      | None \<Rightarrow>
                          (let canvas = drawImage img 0 0 canvas
                           in case toDataURL P canvas ''image/jpeg'' (9 / 10) of
                                Inl err \<Rightarrow> Rejected err
                              | Inr jpegUrl \<Rightarrow>
                                  (let fileName = ''img-'' @ toString index @ ''.jpg''
                                   in Resolved \<lparr>name = fileName, url = jpegUrl,
                                                 originalFile = file\<rparr>))))))"

subsection \<open>Batch driver: \<^verbatim>\<open>convertImages\<close> (lines 79-100)\<close>

text \<open>
  How the \<^verbatim>\<open>for\<close> loop of the \<^verbatim>\<open>try\<close> block ends: it runs to its end, an awaited
  promise is rejected (the exception goes to \<^verbatim>\<open>catch\<close>), or an awaited promise stays
  pending and the function never resumes.
\<close>

datatype loop_exit = Finished | Thrown string | Suspended

text \<open>
  The loop reads \<^verbatim>\<open>this.selectedFiles\<close> at every iteration, as the source does. With the
  state and the way the loop ends it returns the list of its suspensions: at each
  \<^verbatim>\<open>await\<close>, the file whose conversion is awaited and the component state then, which is
  the state the template is rendered from while the function is suspended. A call is
  followed from its start to its end on its own: no other method of the component runs
  during its suspensions.
\<close>

function for_loop :: "platform \<Rightarrow> nat \<Rightarrow> state \<Rightarrow> (File \<times> state) list \<times> state \<times> loop_exit" where
  "for_loop P i s =
     (if i < length (selectedFiles s) then
        (let file = selectedFiles s ! i in
         case convertWebpToJpeg P file (i + 1) of
           Pending \<Rightarrow> ([(file, s)], s, Suspended)
         | Rejected message \<Rightarrow> ([(file, s)], s, Thrown message)
         | Resolved convertedImage \<Rightarrow>
             (case for_loop P (i + 1) (s\<lparr>convertedImages := convertedImages s @ [convertedImage]\<rparr>) of
                (awaits, s', e) \<Rightarrow> ((file, s) # awaits, s', e)))
      else ([], s, Finished))"
  by pat_completeness auto
termination
  by (relation "measure (\<lambda>(P, i, s). length (selectedFiles s) - i)") auto

declare for_loop.simps [simp del]

text \<open>
  A call of \<^verbatim>\<open>convertImages\<close>: the suspensions of the call, the component state when the
  call returns control or, when it never does, the state it stays in, and whether it returns.
\<close>

record run =
  awaits :: "(File \<times> state) list"
  final :: state
  returned :: bool

definition convertImages :: "platform \<Rightarrow> state \<Rightarrow> run" where
  "convertImages P s =
     (if length (selectedFiles s) = 0 then \<lparr>awaits = [], final = s, returned = True\<rparr>
      else
        (let s = s\<lparr>isConverting := True\<rparr>;
             s = s\<lparr>error := None\<rparr>;
             s = s\<lparr>convertedImages := []\<rparr>
         in case for_loop P 0 s of
              (tr, s, Finished) \<Rightarrow>
                \<lparr>awaits = tr, final = s\<lparr>isConverting := False\<rparr>, returned = True\<rparr>
            | (tr, s, Thrown message) \<Rightarrow>
                (let s = s\<lparr>error := Some (''Error converting images: '' @ message)\<rparr>
                 in \<lparr>awaits = tr, final = s\<lparr>isConverting := False\<rparr>, returned = True\<rparr>)
            | (tr, s, Suspended) \<Rightarrow>
                \<lparr>awaits = tr, final = s, returned = False\<rparr>))"

text \<open>The results section of the template is rendered under \<^verbatim>\<open>v-if\<close> of line 30.\<close>

definition results_shown :: "state \<Rightarrow> bool" where
  "results_shown s = (length (convertedImages s) > 0)"

subsection \<open>Archive exporter: \<^verbatim>\<open>downloadAllImages\<close> (lines 154-185)\<close>

type_synonym bytes = "nat list"

text \<open>
  Modelled from the spec: the transport encoding of the data URL, base64. Four characters
  of the alphabet carry three bytes; the last group of a text is padded with \<^verbatim>\<open>=\<close> when
  it carries one byte or two. Decoding fails on a text that is not made of such groups.
  Encoding is what the platform does to put bytes into a data URL.
\<close>

definition b64_alphabet :: string where
  "b64_alphabet = ''ABCDEFGHIJKLMNOPQRSTUVWXYZabcdefghijklmnopqrstuvwxyz0123456789+/''"

definition b64_char :: "nat \<Rightarrow> char" where
  "b64_char n = b64_alphabet ! n"

definition b64_index :: "char \<Rightarrow> nat option" where
  "b64_index c = map_of (zip b64_alphabet [0..<64]) c"

definition decode_quad :: "char \<Rightarrow> char \<Rightarrow> char \<Rightarrow> char \<Rightarrow> bytes option" where
  "decode_quad a b c d =
     (case (b64_index a, b64_index b) of
        (Some e1, Some e2) \<Rightarrow>
          (if c = CHR ''='' \<and> d = CHR ''='' then Some [e1 * 4 + e2 div 16]
           else case b64_index c of
                  None \<Rightarrow> None
                | Some e3 \<Rightarrow>
                    (if d = CHR ''='' then Some [e1 * 4 + e2 div 16, (e2 mod 16) * 16 + e3 div 4]
                     else case b64_index d of
                            None \<Rightarrow> None
                          | Some e4 \<Rightarrow>
                              Some [e1 * 4 + e2 div 16, (e2 mod 16) * 16 + e3 div 4,
                                    (e3 mod 4) * 64 + e4]))
      | _ \<Rightarrow> None)"

fun base64_decode :: "string \<Rightarrow> string + bytes" where
  "base64_decode (a # b # c # d # rest) =
     (case decode_quad a b c d of
        None \<Rightarrow> Inl ''Invalid base64 input''
      | Some bs \<Rightarrow>
          (case base64_decode rest of
             Inl message \<Rightarrow> Inl message
           | Inr others \<Rightarrow> Inr (bs @ others)))"
| "base64_decode [] = Inr []"
| "base64_decode _ = Inl ''Invalid base64 input''"

fun base64_encode :: "bytes \<Rightarrow> string" where
  "base64_encode (a # b # c # rest) =
     [b64_char (a div 4), b64_char ((a mod 4) * 16 + b div 16),
      b64_char ((b mod 16) * 4 + c div 64), b64_char (c mod 64)] @ base64_encode rest"
| "base64_encode [a, b] =
     [b64_char (a div 4), b64_char ((a mod 4) * 16 + b div 16), b64_char ((b mod 16) * 4), CHR ''='']"
| "base64_encode [a] = [b64_char (a div 4), b64_char ((a mod 4) * 16), CHR ''='', CHR ''='']"
| "base64_encode [] = []"

declare base64_decode.simps [simp del] base64_encode.simps [simp del]

text \<open>
  Modelled from the spec: the archiving library (\<^verbatim>\<open>jszip\<close>) is not part of the sources.
  Its contract is that it accepts a set of named entries and produces a single archive.
  \<^verbatim>\<open>zip.file(name, data, options)\<close> adds an entry, replacing an entry of the same name;
  the option \<^verbatim>\<open>base64\<close> says that the data is base64 text, to be decoded back to raw
  bytes before archiving; without it the characters of the text are stored as they are.
  An entry added with no data is empty.
\<close>

record file_options =
  base64 :: bool

type_synonym zip = "(string \<times> string option \<times> file_options) list"

type_synonym archive = "(string \<times> bytes) list"

definition JSZip_new :: zip where
  "JSZip_new = []"

definition zip_file :: "string \<Rightarrow> string option \<Rightarrow> file_options \<Rightarrow> zip \<Rightarrow> zip" where
  "zip_file n d opts z = AList.update n (d, opts) z"

definition entry_bytes :: "string option \<Rightarrow> file_options \<Rightarrow> string + bytes" where
  "entry_bytes d opts =
     (case d of
        None \<Rightarrow> Inr []
      | Some text \<Rightarrow> if base64 opts then base64_decode text else Inr (map of_char text))"

text \<open>
  Modelled from the spec: \<^verbatim>\<open>generateAsync\<close> of the same library. It takes the bytes of
  every entry, in order, and resolves to the archive of the entries; it is rejected with
  the message of the first entry whose data cannot be decoded.
\<close>

fun generateAsync :: "zip \<Rightarrow> string + archive" where
  "generateAsync [] = Inr []"
| "generateAsync ((n, d, opts) # es) =
     (case entry_bytes d opts of
        Inl message \<Rightarrow> Inl message
      | Inr b \<Rightarrow>
          (case generateAsync es of
             Inl message \<Rightarrow> Inl message
           | Inr a \<Rightarrow> Inr ((n, b) # a)))"

text \<open>The anchor element of lines 172-174.\<close>

record link =
  href :: string
  download :: string

text \<open>
  The platform calls of the exporter; each may throw (\<open>Inl\<close> or \<open>Some\<close>, the message of
  the exception). What the calls do to the world outside the component is kept in a log.
\<close>

record browser =
  createObjectURL :: "archive \<Rightarrow> string + string"
  appendChild :: "link \<Rightarrow> string option"
  click :: "link \<Rightarrow> string option"
  removeChild :: "link \<Rightarrow> string option"

datatype effect =
    ObjectURLCreated archive string
  | DownloadStarted link
  | ObjectURLRevoked string

definition downloadAllImages :: "browser \<Rightarrow> state \<Rightarrow> state \<times> effect list" where
  "downloadAllImages B s =
     (if length (convertedImages s) = 0 then (s, [])
      else
        (let zip = fold (\<lambda>image zip.
                           let base64Data = js_index (js_split CHR '','' (url image)) 1
                           in zip_file (name image) base64Data \<lparr>base64 = True\<rparr> zip)
                        (convertedImages s) JSZip_new;
             catch = (\<lambda>message log.
                        (s\<lparr>error := Some (''Error creating zip file: '' @ message)\<rparr>, log))
         in case generateAsync zip of
              Inl message \<Rightarrow> catch message []
            | Inr zipBlob \<Rightarrow>
                (case createObjectURL B zipBlob of
                   Inl message \<Rightarrow> catch message []
                 | Inr zipUrl \<Rightarrow>
                     (let link = \<lparr>href = zipUrl, download = ''converted_images.zip''\<rparr>;
                          log = [ObjectURLCreated zipBlob zipUrl]
                      in case appendChild B link of
                           Some message \<Rightarrow> catch message log
                         | None \<Rightarrow>
                             (case click B link of
                                Some message \<Rightarrow> catch message log
                              | None \<Rightarrow>
                                  (let log = log @ [DownloadStarted link]
                                   in case removeChild B link of
                                        Some message \<Rightarrow> catch message log
                                      | None \<Rightarrow> (s, log @ [ObjectURLRevoked zipUrl])))))))"

text \<open>The object URLs a log creates and does not revoke afterwards.\<close>

fun unreleased :: "effect list \<Rightarrow> string list" where
  "unreleased [] = []"
| "unreleased (ObjectURLCreated a u # es) =
     (if ObjectURLRevoked u \<in> set es then unreleased es else u # unreleased es)"
| "unreleased (e # es) = unreleased es"

subsection \<open>Sequences of user actions\<close>

text \<open>
  The three things a user can do, each with the platform it meets. An action gives the
  component state at the moment the method returns control, or nothing when the method
  never does.
\<close>

datatype action = Select "File list" | Convert platform | Export browser

fun perform :: "action \<Rightarrow> state \<Rightarrow> state option" where
  "perform (Select files) s = Some (handleFileSelect files s)"
| "perform (Convert P) s =
     (let r = convertImages P s in if returned r then Some (final r) else None)"
| "perform (Export B) s = Some (fst (downloadAllImages B s))"

fun session :: "action list \<Rightarrow> state \<Rightarrow> state option" where
  "session [] s = Some s"
| "session (a # as) s = (case perform a s of None \<Rightarrow> None | Some s' \<Rightarrow> session as s')"

subsection \<open>Auxiliary notions for the proofs\<close>

text \<open>The state in which \<^verbatim>\<open>convertImages\<close> enters its \<^verbatim>\<open>try\<close> block (lines 82-84).\<close>

definition started :: "state \<Rightarrow> state" where
  "started s = s\<lparr>isConverting := True, error := None, convertedImages := []\<rparr>"

text \<open>
  What a run of the loop from index \<open>i\<close> looks like, in terms of the results \<open>rs\<close> it has
  appended: the final state, the suspensions, and the conversion that ended it.
\<close>

definition loop_char :: "platform \<Rightarrow> nat \<Rightarrow> state \<Rightarrow> (File \<times> state) list \<Rightarrow> state \<Rightarrow> loop_exit \<Rightarrow> conversion_result list \<Rightarrow> bool" where
  "loop_char P i s tr s' e rs \<longleftrightarrow>
     s' = s\<lparr>convertedImages := convertedImages s @ rs\<rparr> \<and>
     tr = map (\<lambda>k. (selectedFiles s ! (i + k), s\<lparr>convertedImages := convertedImages s @ take k rs\<rparr>))
            [0..<length tr] \<and>
     length tr = (if e = Finished then length rs else Suc (length rs)) \<and>
     length rs \<le> length (selectedFiles s) - i \<and>
     (\<forall>k<length rs. convertWebpToJpeg P (selectedFiles s ! (i + k)) (i + k + 1) = Resolved (rs ! k)) \<and>
     (case e of
        Finished \<Rightarrow> \<not> i + length rs < length (selectedFiles s)
      | Thrown m \<Rightarrow> i + length rs < length (selectedFiles s) \<and>
          convertWebpToJpeg P (selectedFiles s ! (i + length rs)) (i + length rs + 1) = Rejected m
      | Suspended \<Rightarrow> i + length rs < length (selectedFiles s) \<and>
          convertWebpToJpeg P (selectedFiles s ! (i + length rs)) (i + length rs + 1) = Pending)"

subsection \<open>Example inputs\<close>

text \<open>
  Files, platforms and browsers to evaluate the component on. On the example platform
  every file is read, every image but \<^verbatim>\<open>b.webp\<close> decodes, every canvas gets a context,
  and every canvas is encoded to the same four bytes (\<^verbatim>\<open>FF D8 FF D9\<close>); on the limited
  platform a canvas of more than 16777216 pixels gets no context. In the example browser
  every call succeeds; in the blocked browser clicking a link throws.
\<close>

definition a_webp :: File where
  "a_webp = \<lparr>file_name = ''a.webp'', file_type = ''image/webp'', file_bytes = [82, 73, 70, 70]\<rparr>"

definition b_png :: File where
  "b_png = \<lparr>file_name = ''b.png'', file_type = ''image/png'', file_bytes = [137, 80, 78, 71]\<rparr>"

definition c_WEBP :: File where
  "c_WEBP = \<lparr>file_name = ''c.WEBP'', file_type = [], file_bytes = [82, 73, 70, 70]\<rparr>"

definition b_webp :: File where
  "b_webp = \<lparr>file_name = ''b.webp'', file_type = ''image/webp'', file_bytes = []\<rparr>"

definition example_platform :: platform where
  "example_platform =
     \<lparr>readAsDataURL = (\<lambda>f. ReaderLoad (file_name f)),
      set_src = (\<lambda>d. if d = ''b.webp'' then ImageError
                     else if d = ''c.WEBP'' then ImageLoad \<lparr>src = d, width = 8000, height = 6000\<rparr>
                     else ImageLoad \<lparr>src = d, width = 4, height = 3\<rparr>),
      getContext = (\<lambda>c t. True),
      drawImage_throws = (\<lambda>c img. None),
      toDataURL = (\<lambda>c t q. Inr ''data:image/jpeg;base64,/9j/2Q=='')\<rparr>"

definition img_1 :: conversion_result where
  "img_1 = \<lparr>name = ''img-1.jpg'', url = ''data:image/jpeg;base64,/9j/2Q=='', originalFile = a_webp\<rparr>"

definition img_2 :: conversion_result where
  "img_2 = \<lparr>name = ''img-2.jpg'', url = ''data:image/jpeg;base64,/9j/2Q=='', originalFile = c_WEBP\<rparr>"

definition example_browser :: browser where
  "example_browser =
     \<lparr>createObjectURL = (\<lambda>a. Inr ''blob:1''),
      appendChild = (\<lambda>l. None),
      click = (\<lambda>l. None),
      removeChild = (\<lambda>l. None)\<rparr>"

definition limited_platform :: platform where
  "limited_platform =
     example_platform\<lparr>getContext := (\<lambda>c t. canvas_width c * canvas_height c \<le> 16777216)\<rparr>"

definition example_stuck :: state where
  "example_stuck =
     \<lparr>selectedFiles = [a_webp, c_WEBP], convertedImages = [img_1], isConverting = True,
      error = None\<rparr>"

definition example_results :: state where
  "example_results =
     \<lparr>selectedFiles = [a_webp, c_WEBP], convertedImages = [img_1, img_2],
      isConverting = False, error = None\<rparr>"

definition blocked_browser :: browser where
  "blocked_browser = example_browser\<lparr>click := (\<lambda>l. Some ''blocked'')\<rparr>"

definition example_partial :: state where
  "example_partial =
     \<lparr>selectedFiles = [a_webp, b_webp], convertedImages = [img_1], isConverting = False,
      error = Some ''Error converting images: Failed to load image: b.webp''\<rparr>"

definition example_selection :: state where
  "example_selection =
     \<lparr>selectedFiles = [a_webp, c_WEBP], convertedImages = [], isConverting = False, error = None\<rparr>"

section \<open>Properties\<close>

subsection \<open>Selection filter\<close>

lemma endsWith_suffix: "endsWith s t \<longleftrightarrow> suffix t s"
proof
  assume "endsWith s t"
  then have "take (length s - length t) s @ t = s"
    by (simp add: endsWith_def) (metis append_take_drop_id)
  then show "suffix t s"
    by (metis suffixI)
next
  assume "suffix t s"
  then obtain p where "s = p @ t"
    by (auto simp: suffix_def)
  then show "endsWith s t"
    by (simp add: endsWith_def)
qed

lemma toLowerCase_dot_webp: "toLowerCase ''.webp'' = ''.webp''"
  by (simp add: toLowerCase_def lower_char_def)

lemma suffix_map_iff: "suffix t' (map f xs) \<longleftrightarrow> (\<exists>t. suffix t xs \<and> map f t = t')"
  using map_mono_suffix suffix_map_rightE by blast

lemma is_webp_by_spec: "is_webp f = webp_by_spec f"
proof -
  have "suffix ''.webp'' (toLowerCase (file_name f)) \<longleftrightarrow>
        (\<exists>t. suffix t (file_name f) \<and> toLowerCase t = ''.webp'')"
    unfolding toLowerCase_def by (rule suffix_map_iff)
  then have "endsWith (toLowerCase (file_name f)) ''.webp'' \<longleftrightarrow>
        (\<exists>t \<in> set (suffixes (file_name f)). same_ignoring_case t ''.webp'')"
    unfolding endsWith_suffix same_ignoring_case_def toLowerCase_dot_webp Bex_def in_set_suffixes .
  then show ?thesis
    by (simp only: is_webp_def webp_by_spec_def)
qed

text \<open>
  Claim C2. For every list of picked files, the files \<^verbatim>\<open>handleFileSelect\<close> stores in
  \<^verbatim>\<open>selectedFiles\<close> are exactly those whose declared media type is \<^verbatim>\<open>image/webp\<close>
  or whose name ends, up to the case of its letters, in \<^verbatim>\<open>.webp\<close>, in the order of the
  input. The function has no failing branch and leaves no error, whatever it selects.
\<close>

theorem selection_filter:
  "selectedFiles (handleFileSelect files s) = filter webp_by_spec files \<and>
   subseq (selectedFiles (handleFileSelect files s)) files \<and>
   (\<forall>f. f \<in> set (selectedFiles (handleFileSelect files s)) \<longleftrightarrow> f \<in> set files \<and> webp_by_spec f) \<and>
   error (handleFileSelect files s) = None"
proof -
  have "is_webp = webp_by_spec"
    by (rule ext) (rule is_webp_by_spec)
  then have out: "selectedFiles (handleFileSelect files s) = filter webp_by_spec files"
    by (simp add: handleFileSelect_def)
  have "subseq (filter webp_by_spec files) files"
    by (rule subseq_filter_left)
  moreover have "\<forall>f. f \<in> set (filter webp_by_spec files) \<longleftrightarrow> f \<in> set files \<and> webp_by_spec f"
    by simp
  moreover have "error (handleFileSelect files s) = None"
    by (simp add: handleFileSelect_def)
  ultimately show ?thesis
    unfolding out by blast
qed



theorem selection_filter_witness:
  "filter webp_by_spec [a_webp, b_png, c_WEBP] = [a_webp, c_WEBP] \<and>
   filter webp_by_spec [b_png] = []"
proof -
  have 1: "selectedFiles (handleFileSelect [a_webp, b_png, c_WEBP] data) = [a_webp, c_WEBP]"
    by (simp add: handleFileSelect_def is_webp_def endsWith_def toLowerCase_def lower_char_def
        char_of_eq_iff a_webp_def b_png_def c_WEBP_def)
  have 2: "selectedFiles (handleFileSelect [b_png] data) = []"
    by (simp add: handleFileSelect_def is_webp_def endsWith_def toLowerCase_def lower_char_def
        char_of_eq_iff b_png_def)
  have "filter webp_by_spec [a_webp, b_png, c_WEBP] =
        selectedFiles (handleFileSelect [a_webp, b_png, c_WEBP] data)"
    by (rule conjunct1 [OF selection_filter, symmetric])
  also note 1
  finally have 3: "filter webp_by_spec [a_webp, b_png, c_WEBP] = [a_webp, c_WEBP]" .
  have "filter webp_by_spec [b_png] = selectedFiles (handleFileSelect [b_png] data)"
    by (rule conjunct1 [OF selection_filter, symmetric])
  also note 2
  finally have 4: "filter webp_by_spec [b_png] = []" .
  from 3 4 show ?thesis ..
qed

subsection \<open>The loop of the batch driver\<close>

lemma for_loop_end: "\<not> i < length (selectedFiles s) \<Longrightarrow> for_loop P i s = ([], s, Finished)"
  by (simp add: for_loop.simps)

lemma for_loop_Pending:
  "i < length (selectedFiles s) \<Longrightarrow> convertWebpToJpeg P (selectedFiles s ! i) (i + 1) = Pending \<Longrightarrow>
   for_loop P i s = ([(selectedFiles s ! i, s)], s, Suspended)"
  by (simp add: for_loop.simps)

lemma for_loop_Rejected:
  "i < length (selectedFiles s) \<Longrightarrow> convertWebpToJpeg P (selectedFiles s ! i) (i + 1) = Rejected m \<Longrightarrow>
   for_loop P i s = ([(selectedFiles s ! i, s)], s, Thrown m)"
  by (simp add: for_loop.simps)

lemma for_loop_Resolved:
  "i < length (selectedFiles s) \<Longrightarrow> convertWebpToJpeg P (selectedFiles s ! i) (i + 1) = Resolved c \<Longrightarrow>
   for_loop P (i + 1) (s\<lparr>convertedImages := convertedImages s @ [c]\<rparr>) = (tr, s', e) \<Longrightarrow>
   for_loop P i s = ((selectedFiles s ! i, s) # tr, s', e)"
  by (simp add: for_loop.simps [of P i s])


lemma for_loop_char:
  "for_loop P i s = (tr, s', e) \<Longrightarrow> \<exists>rs. loop_char P i s tr s' e rs"
proof (induction P i s arbitrary: tr s' e rule: for_loop.induct)
  case (1 P i s)
  show ?case
  proof (cases "i < length (selectedFiles s)")
    case False
    with "1.prems" have "tr = [] \<and> s' = s \<and> e = Finished"
      by (simp add: for_loop_end)
    with False have "loop_char P i s tr s' e []"
      by (simp add: loop_char_def)
    then show ?thesis ..
  next
    case True
    let ?f = "selectedFiles s ! i"
    show ?thesis
    proof (cases "convertWebpToJpeg P ?f (i + 1)")
      case Pending
      from for_loop_Pending [OF True Pending] "1.prems"
      have "tr = [(?f, s)] \<and> s' = s \<and> e = Suspended"
        by simp
      with True Pending have "loop_char P i s tr s' e []"
        by (simp add: loop_char_def)
      then show ?thesis ..
    next
      case (Rejected m)
      from for_loop_Rejected [OF True Rejected] "1.prems"
      have "tr = [(?f, s)] \<and> s' = s \<and> e = Thrown m"
        by simp
      with True Rejected have "loop_char P i s tr s' e []"
        by (simp add: loop_char_def)
      then show ?thesis ..
    next
      case (Resolved c)
      let ?s1 = "s\<lparr>convertedImages := convertedImages s @ [c]\<rparr>"
      obtain tr1 s1 e1 where L: "for_loop P (i + 1) ?s1 = (tr1, s1, e1)"
        by (cases "for_loop P (i + 1) ?s1") auto
      from for_loop_Resolved [OF True Resolved L] "1.prems"
      have eqs: "tr = (?f, s) # tr1" "s' = s1" "e = e1"
        by simp_all
      from "1.IH" [OF True refl Resolved L] obtain rs1 where C: "loop_char P (i + 1) ?s1 tr1 s1 e1 rs1" ..
      have "loop_char P i s tr s' e (c # rs1)"
        unfolding loop_char_def
      proof (intro conjI)
        show "s' = s\<lparr>convertedImages := convertedImages s @ c # rs1\<rparr>"
          using C eqs by (simp add: loop_char_def)
        show "length tr = (if e = Finished then length (c # rs1) else Suc (length (c # rs1)))"
          using C eqs by (simp add: loop_char_def)
        show "length (c # rs1) \<le> length (selectedFiles s) - i"
        proof -
          from C have "length rs1 \<le> length (selectedFiles s) - (i + 1)"
            by (simp add: loop_char_def)
          with True show ?thesis
            by simp
        qed
        show "\<forall>k<length (c # rs1).
            convertWebpToJpeg P (selectedFiles s ! (i + k)) (i + k + 1) = Resolved ((c # rs1) ! k)"
        proof (intro allI impI)
          fix k assume "k < length (c # rs1)"
          then show "convertWebpToJpeg P (selectedFiles s ! (i + k)) (i + k + 1) = Resolved ((c # rs1) ! k)"
            using C Resolved by (cases k) (auto simp add: loop_char_def)
        qed
        show "case e of
            Finished \<Rightarrow> \<not> i + length (c # rs1) < length (selectedFiles s)
          | Thrown m \<Rightarrow> i + length (c # rs1) < length (selectedFiles s) \<and>
              convertWebpToJpeg P (selectedFiles s ! (i + length (c # rs1))) (i + length (c # rs1) + 1) = Rejected m
          | Suspended \<Rightarrow> i + length (c # rs1) < length (selectedFiles s) \<and>
              convertWebpToJpeg P (selectedFiles s ! (i + length (c # rs1))) (i + length (c # rs1) + 1) = Pending"
          using C eqs by (cases e1) (simp_all add: loop_char_def)
        have "tr1 = map (\<lambda>k. (selectedFiles ?s1 ! (i + 1 + k),
                   ?s1\<lparr>convertedImages := convertedImages ?s1 @ take k rs1\<rparr>)) [0..<length tr1]"
          using C unfolding loop_char_def by (elim conjE)
        then have "tr1 = map (\<lambda>k. (selectedFiles s ! (i + Suc k),
                   s\<lparr>convertedImages := convertedImages s @ take (Suc k) (c # rs1)\<rparr>)) [0..<length tr1]"
          by simp
        then have "(?f, s) # tr1 = map (\<lambda>k. (selectedFiles s ! (i + k),
                   s\<lparr>convertedImages := convertedImages s @ take k (c # rs1)\<rparr>)) [0..<Suc (length tr1)]"
          by (simp add: upt_conv_Cons map_Suc_upt [symmetric] o_def del: upt_Suc take_Suc_Cons)
        then show "tr = map (\<lambda>k. (selectedFiles s ! (i + k),
                   s\<lparr>convertedImages := convertedImages s @ take k (c # rs1)\<rparr>)) [0..<length tr]"
          using eqs by simp
      qed
      then show ?thesis ..
    qed
  qed
qed

lemma convertImages_empty:
  "selectedFiles s = [] \<Longrightarrow> convertImages P s = \<lparr>awaits = [], final = s, returned = True\<rparr>"
  by (simp add: convertImages_def)

lemma convertImages_cases:
  assumes "selectedFiles s \<noteq> []"
  obtains tr s2 e rs where
    "loop_char P 0 (started s) tr s2 e rs"
    "awaits (convertImages P s) = tr"
    "returned (convertImages P s) = (e \<noteq> Suspended)"
    "final (convertImages P s) =
       (case e of
          Finished \<Rightarrow> s2\<lparr>isConverting := False\<rparr>
        | Thrown m \<Rightarrow> s2\<lparr>error := Some (''Error converting images: '' @ m), isConverting := False\<rparr>
        | Suspended \<Rightarrow> s2)"
proof -
  obtain tr s2 e where L: "for_loop P 0 (started s) = (tr, s2, e)"
    by (cases "for_loop P 0 (started s)") auto
  from for_loop_char [OF L] obtain rs where C: "loop_char P 0 (started s) tr s2 e rs" ..
  have L': "for_loop P 0 (s\<lparr>isConverting := True, error := None, convertedImages := []\<rparr>) = (tr, s2, e)"
    using L by (simp add: started_def)
  have "awaits (convertImages P s) = tr"
    using assms L' by (cases e) (simp_all add: convertImages_def)
  moreover have "returned (convertImages P s) = (e \<noteq> Suspended)"
    using assms L' by (cases e) (simp_all add: convertImages_def)
  moreover have "final (convertImages P s) =
       (case e of
          Finished \<Rightarrow> s2\<lparr>isConverting := False\<rparr>
        | Thrown m \<Rightarrow> s2\<lparr>error := Some (''Error converting images: '' @ m), isConverting := False\<rparr>
        | Suspended \<Rightarrow> s2)"
    using assms L' by (cases e) (simp_all add: convertImages_def)
  ultimately show ?thesis
    using C that by blast
qed

lemma run_shape:
  assumes "selectedFiles s \<noteq> []"
  obtains e rs where
    "awaits (convertImages P s) =
       map (\<lambda>k. (selectedFiles s ! k, (started s)\<lparr>convertedImages := take k rs\<rparr>))
         [0..<(if e = Finished then length rs else Suc (length rs))]"
    "returned (convertImages P s) = (e \<noteq> Suspended)"
    "final (convertImages P s) =
       (case e of
          Finished \<Rightarrow> (started s)\<lparr>convertedImages := rs, isConverting := False\<rparr>
        | Thrown m \<Rightarrow> (started s)\<lparr>convertedImages := rs,
            error := Some (''Error converting images: '' @ m), isConverting := False\<rparr>
        | Suspended \<Rightarrow> (started s)\<lparr>convertedImages := rs\<rparr>)"
    "length rs \<le> length (selectedFiles s)"
    "\<forall>k<length rs. convertWebpToJpeg P (selectedFiles s ! k) (k + 1) = Resolved (rs ! k)"
    "case e of
       Finished \<Rightarrow> length rs = length (selectedFiles s)
     | Thrown m \<Rightarrow> length rs < length (selectedFiles s) \<and>
         convertWebpToJpeg P (selectedFiles s ! length rs) (length rs + 1) = Rejected m
     | Suspended \<Rightarrow> length rs < length (selectedFiles s) \<and>
         convertWebpToJpeg P (selectedFiles s ! length rs) (length rs + 1) = Pending"
proof -
  from convertImages_cases [OF assms, of P] obtain tr s2 e rs where
    C: "loop_char P 0 (started s) tr s2 e rs" and
    A: "awaits (convertImages P s) = tr" and
    R: "returned (convertImages P s) = (e \<noteq> Suspended)" and
    F: "final (convertImages P s) =
       (case e of
          Finished \<Rightarrow> s2\<lparr>isConverting := False\<rparr>
        | Thrown m \<Rightarrow> s2\<lparr>error := Some (''Error converting images: '' @ m), isConverting := False\<rparr>
        | Suspended \<Rightarrow> s2)"
    by blast
  have sel: "selectedFiles (started s) = selectedFiles s" and cs: "convertedImages (started s) = []"
    by (simp_all add: started_def)
  from C have s2: "s2 = (started s)\<lparr>convertedImages := rs\<rparr>"
    and len: "length tr = (if e = Finished then length rs else Suc (length rs))"
    and bound: "length rs \<le> length (selectedFiles s)"
    and res: "\<forall>k<length rs. convertWebpToJpeg P (selectedFiles s ! k) (k + 1) = Resolved (rs ! k)"
    by (simp_all add: loop_char_def sel cs)
  from C have "tr = map (\<lambda>k. (selectedFiles (started s) ! (0 + k),
      (started s)\<lparr>convertedImages := convertedImages (started s) @ take k rs\<rparr>)) [0..<length tr]"
    unfolding loop_char_def by (elim conjE)
  then have tr: "tr = map (\<lambda>k. (selectedFiles s ! k, (started s)\<lparr>convertedImages := take k rs\<rparr>))
      [0..<(if e = Finished then length rs else Suc (length rs))]"
    unfolding sel cs len by simp
  from C bound have ex: "case e of
       Finished \<Rightarrow> length rs = length (selectedFiles s)
     | Thrown m \<Rightarrow> length rs < length (selectedFiles s) \<and>
         convertWebpToJpeg P (selectedFiles s ! length rs) (length rs + 1) = Rejected m
     | Suspended \<Rightarrow> length rs < length (selectedFiles s) \<and>
         convertWebpToJpeg P (selectedFiles s ! length rs) (length rs + 1) = Pending"
    by (cases e) (simp_all add: loop_char_def sel)
  have "final (convertImages P s) =
       (case e of
          Finished \<Rightarrow> (started s)\<lparr>convertedImages := rs, isConverting := False\<rparr>
        | Thrown m \<Rightarrow> (started s)\<lparr>convertedImages := rs,
            error := Some (''Error converting images: '' @ m), isConverting := False\<rparr>
        | Suspended \<Rightarrow> (started s)\<lparr>convertedImages := rs\<rparr>)"
    unfolding F s2 by (cases e) simp_all
  with A R tr bound res ex show ?thesis
    using that by blast
qed

subsection \<open>Converter\<close>

lemma digit_inj: "a < 10 \<Longrightarrow> b < 10 \<Longrightarrow> digit a = digit b \<Longrightarrow> a = b"
  by (simp add: digit_def)

lemma toString_nonempty: "toString n \<noteq> []"
  by (subst toString.simps) simp

lemma toString_inj: "toString m = toString n \<Longrightarrow> m = n"
proof (induction m arbitrary: n rule: toString.induct)
  case (1 m)
  show ?case
  proof (cases "m < 10")
    case True
    show ?thesis
    proof (cases "n < 10")
      case n: True
      from "1.prems" True n have "[digit m] = [digit n]"
        by (simp add: toString.simps [of m] toString.simps [of n])
      with True n show ?thesis
        by (simp add: digit_inj)
    next
      case n: False
      from "1.prems" True n have "[digit m] = toString (n div 10) @ [digit (n mod 10)]"
        by (simp add: toString.simps [of m] toString.simps [of n])
      then show ?thesis
        by (simp add: toString_nonempty [THEN not_sym])
    qed
  next
    case False
    show ?thesis
    proof (cases "n < 10")
      case n: True
      from "1.prems" False n have "toString (m div 10) @ [digit (m mod 10)] = [digit n]"
        by (simp add: toString.simps [of m] toString.simps [of n])
      then show ?thesis
        by (simp add: toString_nonempty)
    next
      case n: False
      from "1.prems" False n
      have "toString (m div 10) @ [digit (m mod 10)] = toString (n div 10) @ [digit (n mod 10)]"
        by (simp add: toString.simps [of m] toString.simps [of n])
      then have "toString (m div 10) = toString (n div 10)" and "digit (m mod 10) = digit (n mod 10)"
        by simp_all
      with "1.IH" [OF False] have "m div 10 = n div 10" and "m mod 10 = n mod 10"
        by (simp_all add: digit_inj)
      then show ?thesis
        by (metis div_mult_mod_eq)
    qed
  qed
qed

lemma convert_Resolved:
  "convertWebpToJpeg P f k = Resolved c \<Longrightarrow>
   name c = ''img-'' @ toString k @ ''.jpg'' \<and> originalFile c = f"
  by (auto simp add: convertWebpToJpeg_def Let_def
      split: reader_event.splits image_event.splits sum.splits option.splits if_splits)

lemma convert_Rejected_read:
  "readAsDataURL P f = ReaderError \<Longrightarrow>
   convertWebpToJpeg P f k = Rejected (''Failed to read file: '' @ file_name f)"
  by (simp add: convertWebpToJpeg_def)

lemma convert_Rejected_decode:
  "readAsDataURL P f = ReaderLoad d \<Longrightarrow> set_src P d = ImageError \<Longrightarrow>
   convertWebpToJpeg P f k = Rejected (''Failed to load image: '' @ file_name f)"
  by (simp add: convertWebpToJpeg_def)

lemma convert_Pending_iff:
  "convertWebpToJpeg P f k = Pending \<longleftrightarrow>
   readAsDataURL P f = NoReaderEvent \<or>
   (\<exists>d. readAsDataURL P f = ReaderLoad d \<and>
      (set_src P d = NoImageEvent \<or>
       (\<exists>img. set_src P d = ImageLoad img \<and>
          (\<not> getContext P (createElement_canvas\<lparr>canvas_width := width img,
                                                  canvas_height := height img\<rparr>) ''2d'' \<or>
           drawImage_throws P (createElement_canvas\<lparr>canvas_width := width img,
                                                     canvas_height := height img\<rparr>) img \<noteq> None))))"
  by (auto simp add: convertWebpToJpeg_def Let_def
      split: reader_event.splits image_event.splits sum.splits option.splits)

lemma convert_no_context:
  "readAsDataURL P f = ReaderLoad d \<Longrightarrow> set_src P d = ImageLoad img \<Longrightarrow>
   \<not> getContext P (createElement_canvas\<lparr>canvas_width := width img,
                                           canvas_height := height img\<rparr>) ''2d'' \<Longrightarrow>
   convertWebpToJpeg P f k = Pending"
  by (simp add: convertWebpToJpeg_def)

subsection \<open>Runs of the batch driver\<close>

lemma run_first_unresolved:
  assumes sel: "selectedFiles s = pre @ f # post"
    and len: "length rs = length pre"
    and res: "\<forall>j<length pre. convertWebpToJpeg P (pre ! j) (j + 1) = Resolved (rs ! j)"
    and unres: "convertWebpToJpeg P f (length pre + 1) = q" "q = Pending \<or> q = Rejected msg"
  shows "awaits (convertImages P s) =
           map (\<lambda>k. ((pre @ [f]) ! k, (started s)\<lparr>convertedImages := take k rs\<rparr>)) [0..<length pre + 1]"
    and "q = Rejected msg \<Longrightarrow> returned (convertImages P s)"
    and "q = Rejected msg \<Longrightarrow> final (convertImages P s) =
           (started s)\<lparr>convertedImages := rs,
              error := Some (''Error converting images: '' @ msg), isConverting := False\<rparr>"
    and "q = Pending \<Longrightarrow> \<not> returned (convertImages P s)"
    and "q = Pending \<Longrightarrow> final (convertImages P s) = (started s)\<lparr>convertedImages := rs\<rparr>"
proof -
  let ?n = "length pre"
  let ?files = "selectedFiles s"
  from sel have ne: "selectedFiles s \<noteq> []"
    by simp
  from sel have at_n: "?files ! ?n = f" and lt: "?n < length ?files"
    by simp_all
  from sel have at_k: "\<And>k. k < ?n \<Longrightarrow> ?files ! k = pre ! k"
    by (simp add: nth_append)
  from run_shape [OF ne, of P] obtain e rs' where
    A: "awaits (convertImages P s) =
       map (\<lambda>k. (?files ! k, (started s)\<lparr>convertedImages := take k rs'\<rparr>))
         [0..<(if e = Finished then length rs' else Suc (length rs'))]" and
    R: "returned (convertImages P s) = (e \<noteq> Suspended)" and
    F: "final (convertImages P s) =
       (case e of
          Finished \<Rightarrow> (started s)\<lparr>convertedImages := rs', isConverting := False\<rparr>
        | Thrown m \<Rightarrow> (started s)\<lparr>convertedImages := rs',
            error := Some (''Error converting images: '' @ m), isConverting := False\<rparr>
        | Suspended \<Rightarrow> (started s)\<lparr>convertedImages := rs'\<rparr>)" and
    B: "length rs' \<le> length ?files" and
    V: "\<forall>k<length rs'. convertWebpToJpeg P (?files ! k) (k + 1) = Resolved (rs' ! k)" and
    E: "case e of
       Finished \<Rightarrow> length rs' = length ?files
     | Thrown m \<Rightarrow> length rs' < length ?files \<and>
         convertWebpToJpeg P (?files ! length rs') (length rs' + 1) = Rejected m
     | Suspended \<Rightarrow> length rs' < length ?files \<and>
         convertWebpToJpeg P (?files ! length rs') (length rs' + 1) = Pending"
    by blast
  have not_less: "\<not> length rs' < ?n"
  proof
    assume less: "length rs' < ?n"
    with res at_k have "convertWebpToJpeg P (?files ! length rs') (length rs' + 1) = Resolved (rs ! length rs')"
      by simp
    with E less lt show False
      by (cases e) auto
  qed
  have not_greater: "\<not> ?n < length rs'"
  proof
    assume "?n < length rs'"
    with V at_n have "convertWebpToJpeg P f (?n + 1) = Resolved (rs' ! ?n)"
      by auto
    with unres show False
      by auto
  qed
  from not_less not_greater have n: "length rs' = ?n"
    by simp
  have "rs' = rs"
  proof (rule nth_equalityI)
    show "length rs' = length rs"
      using n len by simp
    fix k assume "k < length rs'"
    with n have k: "k < ?n" "k < length rs'"
      by simp_all
    from k V have "convertWebpToJpeg P (?files ! k) (k + 1) = Resolved (rs' ! k)"
      by simp
    moreover from k res at_k have "convertWebpToJpeg P (?files ! k) (k + 1) = Resolved (rs ! k)"
      by simp
    ultimately show "rs' ! k = rs ! k"
      by simp
  qed
  from E n lt at_n unres have e: "e = (if q = Pending then Suspended else Thrown msg)"
    by (cases e) auto
  have "map (\<lambda>k. (?files ! k, (started s)\<lparr>convertedImages := take k rs\<rparr>)) [0..<?n + 1] =
        map (\<lambda>k. ((pre @ [f]) ! k, (started s)\<lparr>convertedImages := take k rs\<rparr>)) [0..<?n + 1]"
    by (rule map_cong) (auto simp add: sel nth_append less_Suc_eq)
  with A e n \<open>rs' = rs\<close>
  show "awaits (convertImages P s) =
           map (\<lambda>k. ((pre @ [f]) ! k, (started s)\<lparr>convertedImages := take k rs\<rparr>)) [0..<length pre + 1]"
    by (simp del: upt_Suc)
  show "q = Rejected msg \<Longrightarrow> returned (convertImages P s)"
    using R e by simp
  show "q = Rejected msg \<Longrightarrow> final (convertImages P s) =
           (started s)\<lparr>convertedImages := rs,
              error := Some (''Error converting images: '' @ msg), isConverting := False\<rparr>"
    using F e \<open>rs' = rs\<close> by simp
  show "q = Pending \<Longrightarrow> \<not> returned (convertImages P s)"
    using R e by simp
  show "q = Pending \<Longrightarrow> final (convertImages P s) = (started s)\<lparr>convertedImages := rs\<rparr>"
    using F e \<open>rs' = rs\<close> by simp
qed

lemma run_all_resolved:
  assumes ne: "selectedFiles s \<noteq> []"
    and len: "length rs = length (selectedFiles s)"
    and res: "\<forall>j<length (selectedFiles s). convertWebpToJpeg P (selectedFiles s ! j) (j + 1) = Resolved (rs ! j)"
  shows "awaits (convertImages P s) =
           map (\<lambda>k. (selectedFiles s ! k, (started s)\<lparr>convertedImages := take k rs\<rparr>))
             [0..<length (selectedFiles s)]"
    and "returned (convertImages P s)"
    and "final (convertImages P s) = (started s)\<lparr>convertedImages := rs, isConverting := False\<rparr>"
proof -
  let ?files = "selectedFiles s"
  from run_shape [OF ne, of P] obtain e rs' where
    A: "awaits (convertImages P s) =
       map (\<lambda>k. (?files ! k, (started s)\<lparr>convertedImages := take k rs'\<rparr>))
         [0..<(if e = Finished then length rs' else Suc (length rs'))]" and
    R: "returned (convertImages P s) = (e \<noteq> Suspended)" and
    F: "final (convertImages P s) =
       (case e of
          Finished \<Rightarrow> (started s)\<lparr>convertedImages := rs', isConverting := False\<rparr>
        | Thrown m \<Rightarrow> (started s)\<lparr>convertedImages := rs',
            error := Some (''Error converting images: '' @ m), isConverting := False\<rparr>
        | Suspended \<Rightarrow> (started s)\<lparr>convertedImages := rs'\<rparr>)" and
    B: "length rs' \<le> length ?files" and
    V: "\<forall>k<length rs'. convertWebpToJpeg P (?files ! k) (k + 1) = Resolved (rs' ! k)" and
    E: "case e of
       Finished \<Rightarrow> length rs' = length ?files
     | Thrown m \<Rightarrow> length rs' < length ?files \<and>
         convertWebpToJpeg P (?files ! length rs') (length rs' + 1) = Rejected m
     | Suspended \<Rightarrow> length rs' < length ?files \<and>
         convertWebpToJpeg P (?files ! length rs') (length rs' + 1) = Pending"
    by blast
  have e: "e = Finished"
  proof (rule ccontr)
    assume "e \<noteq> Finished"
    with E have less: "length rs' < length ?files"
      and "convertWebpToJpeg P (?files ! length rs') (length rs' + 1) = Pending \<or>
           (\<exists>m. convertWebpToJpeg P (?files ! length rs') (length rs' + 1) = Rejected m)"
      by (cases e; simp)+
    moreover from less res
    have "convertWebpToJpeg P (?files ! length rs') (length rs' + 1) = Resolved (rs ! length rs')"
      by simp
    ultimately show False
      by auto
  qed
  with E have n: "length rs' = length ?files"
    by simp
  have "rs' = rs"
  proof (rule nth_equalityI)
    show "length rs' = length rs"
      using n len by simp
    fix k assume "k < length rs'"
    with n have k: "k < length ?files" "k < length rs'"
      by simp_all
    from k V have "convertWebpToJpeg P (?files ! k) (k + 1) = Resolved (rs' ! k)"
      by simp
    moreover from k res have "convertWebpToJpeg P (?files ! k) (k + 1) = Resolved (rs ! k)"
      by simp
    ultimately show "rs' ! k = rs ! k"
      by simp
  qed
  with A e n show "awaits (convertImages P s) =
           map (\<lambda>k. (selectedFiles s ! k, (started s)\<lparr>convertedImages := take k rs\<rparr>))
             [0..<length (selectedFiles s)]"
    by simp
  show "returned (convertImages P s)"
    using R e by simp
  show "final (convertImages P s) = (started s)\<lparr>convertedImages := rs, isConverting := False\<rparr>"
    using F e \<open>rs' = rs\<close> by simp
qed

lemma run_facts:
  assumes ne: "selectedFiles s \<noteq> []"
  shows "selectedFiles (final (convertImages P s)) = selectedFiles s"
    and "length (convertedImages (final (convertImages P s))) \<le> length (selectedFiles s)"
    and "\<forall>k<length (convertedImages (final (convertImages P s))).
           convertWebpToJpeg P (selectedFiles s ! k) (k + 1) =
             Resolved (convertedImages (final (convertImages P s)) ! k)"
    and "awaits (convertImages P s) \<noteq> []"
    and "length (awaits (convertImages P s)) \<le> Suc (length (convertedImages (final (convertImages P s))))"
    and "\<forall>k<length (awaits (convertImages P s)). awaits (convertImages P s) ! k =
           (selectedFiles s ! k,
            (started s)\<lparr>convertedImages := take k (convertedImages (final (convertImages P s)))\<rparr>)"
    and "returned (convertImages P s) \<longrightarrow> \<not> isConverting (final (convertImages P s))"
    and "\<not> returned (convertImages P s) \<longrightarrow>
           length (convertedImages (final (convertImages P s))) < length (selectedFiles s) \<and>
           convertWebpToJpeg P (selectedFiles s ! length (convertedImages (final (convertImages P s))))
             (length (convertedImages (final (convertImages P s))) + 1) = Pending"
    and "length (awaits (convertImages P s)) \<le> length (selectedFiles s)"
proof -
  let ?files = "selectedFiles s"
  from run_shape [OF ne, of P] obtain e rs where
    A: "awaits (convertImages P s) =
       map (\<lambda>k. (?files ! k, (started s)\<lparr>convertedImages := take k rs\<rparr>))
         [0..<(if e = Finished then length rs else Suc (length rs))]" and
    R: "returned (convertImages P s) = (e \<noteq> Suspended)" and
    F: "final (convertImages P s) =
       (case e of
          Finished \<Rightarrow> (started s)\<lparr>convertedImages := rs, isConverting := False\<rparr>
        | Thrown m \<Rightarrow> (started s)\<lparr>convertedImages := rs,
            error := Some (''Error converting images: '' @ m), isConverting := False\<rparr>
        | Suspended \<Rightarrow> (started s)\<lparr>convertedImages := rs\<rparr>)" and
    B: "length rs \<le> length ?files" and
    V: "\<forall>k<length rs. convertWebpToJpeg P (?files ! k) (k + 1) = Resolved (rs ! k)" and
    E: "case e of
       Finished \<Rightarrow> length rs = length ?files
     | Thrown m \<Rightarrow> length rs < length ?files \<and>
         convertWebpToJpeg P (?files ! length rs) (length rs + 1) = Rejected m
     | Suspended \<Rightarrow> length rs < length ?files \<and>
         convertWebpToJpeg P (?files ! length rs) (length rs + 1) = Pending"
    by blast
  from F have cs: "convertedImages (final (convertImages P s)) = rs"
    by (cases e) simp_all
  from F show "selectedFiles (final (convertImages P s)) = selectedFiles s"
    by (cases e) (simp_all add: started_def)
  from B show "length (convertedImages (final (convertImages P s))) \<le> length (selectedFiles s)"
    unfolding cs .
  from V show "\<forall>k<length (convertedImages (final (convertImages P s))).
           convertWebpToJpeg P (selectedFiles s ! k) (k + 1) =
             Resolved (convertedImages (final (convertImages P s)) ! k)"
    unfolding cs .
  from A E ne show "awaits (convertImages P s) \<noteq> []"
    by (cases e) simp_all
  from A show "length (awaits (convertImages P s)) \<le> Suc (length (convertedImages (final (convertImages P s))))"
    unfolding cs by simp
  from A show "\<forall>k<length (awaits (convertImages P s)). awaits (convertImages P s) ! k =
           (selectedFiles s ! k,
            (started s)\<lparr>convertedImages := take k (convertedImages (final (convertImages P s)))\<rparr>)"
    unfolding cs by (simp del: upt_Suc)
  from R F show "returned (convertImages P s) \<longrightarrow> \<not> isConverting (final (convertImages P s))"
    by (cases e) simp_all
  from R E show "\<not> returned (convertImages P s) \<longrightarrow>
           length (convertedImages (final (convertImages P s))) < length (selectedFiles s) \<and>
           convertWebpToJpeg P (selectedFiles s ! length (convertedImages (final (convertImages P s))))
             (length (convertedImages (final (convertImages P s))) + 1) = Pending"
    unfolding cs by (cases e) simp_all
  from A E show "length (awaits (convertImages P s)) \<le> length (selectedFiles s)"
    by (cases e) simp_all
qed

lemma no_Pending_returns:
  assumes ne: "selectedFiles s \<noteq> []"
    and live: "\<forall>f\<in>set (selectedFiles s). \<forall>k. convertWebpToJpeg P f k \<noteq> Pending"
  shows "returned (convertImages P s)"
proof (rule ccontr)
  assume "\<not> returned (convertImages P s)"
  with run_facts(8) [OF ne, of P] obtain n where
    "n < length (selectedFiles s)" and "convertWebpToJpeg P (selectedFiles s ! n) (n + 1) = Pending"
    by auto
  moreover from this(1) have "selectedFiles s ! n \<in> set (selectedFiles s)"
    by (rule nth_mem)
  ultimately show False
    using live by auto
qed

lemma toString_1: "toString (Suc 0) = ''1''"
  by (simp add: toString.simps digit_def char_of_eq_iff)

lemma toString_2: "toString (Suc (Suc 0)) = ''2''"
  by (simp add: toString.simps digit_def char_of_eq_iff)

lemma example_a: "convertWebpToJpeg example_platform a_webp (Suc 0) = Resolved img_1"
  by (simp add: convertWebpToJpeg_def example_platform_def a_webp_def img_1_def toString_1)

lemma example_b: "convertWebpToJpeg example_platform b_webp k = Rejected ''Failed to load image: b.webp''"
  by (simp add: convertWebpToJpeg_def example_platform_def b_webp_def)

subsection \<open>Failure policy of the batch driver\<close>

text \<open>
  The failures the converter hands to the batch driver. In every run over a non-empty
  selection the files are converted one after the other in the order of the selection: the
  suspension at position \<open>k\<close> awaits the file at position \<open>k\<close>, with the results of
  all the earlier files already stored, and there are no more suspensions than files.
  When the first files convert and the conversion of the next file is rejected, that file
  is the last one attempted; the call returns with \<^verbatim>\<open>convertedImages\<close> holding exactly
  the results before the failure, \<^verbatim>\<open>isConverting\<close> false and \<^verbatim>\<open>error\<close> holding the
  message of the failure after \<^verbatim>\<open>Error converting images: \<close>. The message of a read
  failure and of a decode failure ends with the name of the failing file.
\<close>

lemma rejection_aborts_batch:
  "(selectedFiles s \<noteq> [] \<longrightarrow>
      length (awaits (convertImages P s)) \<le> length (selectedFiles s) \<and>
      (\<forall>k<length (awaits (convertImages P s)).
         awaits (convertImages P s) ! k =
           (selectedFiles s ! k,
            s\<lparr>isConverting := True, error := None,
              convertedImages := take k (convertedImages (final (convertImages P s)))\<rparr>))) \<and>
   (selectedFiles s = pre @ f # post \<and>
    length rs = length pre \<and>
    (\<forall>j<length pre. convertWebpToJpeg P (pre ! j) (j + 1) = Resolved (rs ! j)) \<and>
    convertWebpToJpeg P f (length pre + 1) = Rejected msg \<longrightarrow>
      map fst (awaits (convertImages P s)) = pre @ [f] \<and>
      returned (convertImages P s) \<and>
      final (convertImages P s) =
        s\<lparr>isConverting := False,
          error := Some (''Error converting images: '' @ msg),
          convertedImages := rs\<rparr> \<and>
      (readAsDataURL P f = ReaderError \<longrightarrow> msg = ''Failed to read file: '' @ file_name f) \<and>
      (\<forall>d. readAsDataURL P f = ReaderLoad d \<and> set_src P d = ImageError \<longrightarrow>
           msg = ''Failed to load image: '' @ file_name f))"
proof (intro conjI impI)
  assume ne: "selectedFiles s \<noteq> []"
  from run_facts(9) [OF ne]
  show "length (awaits (convertImages P s)) \<le> length (selectedFiles s)" .
  from run_facts(6) [OF ne, of P]
  show "\<forall>k<length (awaits (convertImages P s)).
         awaits (convertImages P s) ! k =
           (selectedFiles s ! k,
            s\<lparr>isConverting := True, error := None,
              convertedImages := take k (convertedImages (final (convertImages P s)))\<rparr>)"
    by (simp add: started_def)
next
  assume a: "selectedFiles s = pre @ f # post \<and>
    length rs = length pre \<and>
    (\<forall>j<length pre. convertWebpToJpeg P (pre ! j) (j + 1) = Resolved (rs ! j)) \<and>
    convertWebpToJpeg P f (length pre + 1) = Rejected msg"
  then have sel: "selectedFiles s = pre @ f # post"
    and len: "length rs = length pre"
    and res: "\<forall>j<length pre. convertWebpToJpeg P (pre ! j) (j + 1) = Resolved (rs ! j)"
    and rej: "convertWebpToJpeg P f (length pre + 1) = Rejected msg"
    by simp_all
  note run = run_first_unresolved(1-3) [OF sel len res rej disjI2 [OF refl]]
  have "map fst (awaits (convertImages P s)) = map (\<lambda>k. (pre @ [f]) ! k) [0..<length (pre @ [f])]"
    unfolding run(1) by (simp add: o_def del: upt_Suc)
  then show "map fst (awaits (convertImages P s)) = pre @ [f]"
    by (simp only: map_nth)
  from run(2) show "returned (convertImages P s)"
    by simp
  from run(3) show "final (convertImages P s) =
        s\<lparr>isConverting := False,
          error := Some (''Error converting images: '' @ msg),
          convertedImages := rs\<rparr>"
    by (simp add: started_def)
  show "msg = ''Failed to read file: '' @ file_name f" if "readAsDataURL P f = ReaderError"
    using convert_Rejected_read [OF that, of "length pre + 1"] rej by simp
  show "\<forall>d. readAsDataURL P f = ReaderLoad d \<and> set_src P d = ImageError \<longrightarrow>
           msg = ''Failed to load image: '' @ file_name f"
  proof (intro allI impI, elim conjE)
    fix d assume "readAsDataURL P f = ReaderLoad d" and "set_src P d = ImageError"
    from convert_Rejected_decode [OF this, of "length pre + 1"] rej
    show "msg = ''Failed to load image: '' @ file_name f"
      by simp
  qed
qed

lemma rejection_aborts_batch_example:
  "final (convertImages example_platform (data\<lparr>selectedFiles := [a_webp, b_webp]\<rparr>)) =
     \<lparr>selectedFiles = [a_webp, b_webp], convertedImages = [img_1], isConverting = False,
      error = Some ''Error converting images: Failed to load image: b.webp''\<rparr> \<and>
   map fst (awaits (convertImages example_platform (data\<lparr>selectedFiles := [a_webp, b_webp]\<rparr>))) =
     [a_webp, b_webp] \<and>
   returned (convertImages example_platform (data\<lparr>selectedFiles := [a_webp, b_webp]\<rparr>)) \<and>
   length (awaits (convertImages example_platform (data\<lparr>selectedFiles := [a_webp, b_webp]\<rparr>))) \<le> 2"
proof -
  let ?s = "data\<lparr>selectedFiles := [a_webp, b_webp]\<rparr>"
  have 0: "selectedFiles ?s \<noteq> []"
    by simp
  have 1: "selectedFiles ?s = [a_webp] @ b_webp # [] \<and>
    length [img_1] = length [a_webp] \<and>
    (\<forall>j<length [a_webp].
       convertWebpToJpeg example_platform ([a_webp] ! j) (j + 1) = Resolved ([img_1] ! j)) \<and>
    convertWebpToJpeg example_platform b_webp (length [a_webp] + 1) =
      Rejected ''Failed to load image: b.webp''"
    by (simp add: example_a example_b)
  note inst = rejection_aborts_batch [of ?s example_platform "[a_webp]" b_webp "[]" "[img_1]"
      "''Failed to load image: b.webp''"]
  from conjunct1 [OF inst] 0
  have "length (awaits (convertImages example_platform ?s)) \<le> length (selectedFiles ?s)"
    by simp
  moreover from conjunct2 [OF inst] 1
  have "map fst (awaits (convertImages example_platform ?s)) = [a_webp] @ [b_webp] \<and>
      returned (convertImages example_platform ?s) \<and>
      final (convertImages example_platform ?s) =
        ?s\<lparr>isConverting := False,
          error := Some (''Error converting images: '' @ ''Failed to load image: b.webp''),
          convertedImages := [img_1]\<rparr>"
    by simp
  ultimately show ?thesis
    by (simp add: data_def)
qed

lemma example_c: "convertWebpToJpeg example_platform c_WEBP (Suc (Suc 0)) = Resolved img_2"
  by (simp add: convertWebpToJpeg_def example_platform_def c_WEBP_def img_2_def toString_2)

lemma example_run_two:
  "awaits (convertImages example_platform (data\<lparr>selectedFiles := [a_webp, c_WEBP]\<rparr>)) =
     [(a_webp, \<lparr>selectedFiles = [a_webp, c_WEBP], convertedImages = [], isConverting = True, error = None\<rparr>),
      (c_WEBP, \<lparr>selectedFiles = [a_webp, c_WEBP], convertedImages = [img_1], isConverting = True, error = None\<rparr>)]"
  "returned (convertImages example_platform (data\<lparr>selectedFiles := [a_webp, c_WEBP]\<rparr>))"
  "final (convertImages example_platform (data\<lparr>selectedFiles := [a_webp, c_WEBP]\<rparr>)) =
     \<lparr>selectedFiles = [a_webp, c_WEBP], convertedImages = [img_1, img_2], isConverting = False, error = None\<rparr>"
proof -
  let ?s = "data\<lparr>selectedFiles := [a_webp, c_WEBP]\<rparr>"
  have 1: "selectedFiles ?s \<noteq> []"
    by simp
  have 2: "length [img_1, img_2] = length (selectedFiles ?s)"
    by simp
  have 3: "\<forall>j<length (selectedFiles ?s).
      convertWebpToJpeg example_platform (selectedFiles ?s ! j) (j + 1) = Resolved ([img_1, img_2] ! j)"
    by (simp add: less_Suc_eq example_a example_c)
  note run = run_all_resolved [OF 1 2 3]
  from run(1) show "awaits (convertImages example_platform ?s) =
     [(a_webp, \<lparr>selectedFiles = [a_webp, c_WEBP], convertedImages = [], isConverting = True, error = None\<rparr>),
      (c_WEBP, \<lparr>selectedFiles = [a_webp, c_WEBP], convertedImages = [img_1], isConverting = True, error = None\<rparr>)]"
    by (simp add: started_def data_def upt_conv_Cons)
  from run(2) show "returned (convertImages example_platform ?s)" .
  from run(3) show "final (convertImages example_platform ?s) =
     \<lparr>selectedFiles = [a_webp, c_WEBP], convertedImages = [img_1, img_2], isConverting = False, error = None\<rparr>"
    by (simp add: started_def data_def)
qed

subsection \<open>Names of the results\<close>

text \<open>
  Claim C3. After a run over a non-empty selection, the result at position \<open>i\<close> (counted
  from 0) of \<^verbatim>\<open>convertedImages\<close> is named \<^verbatim>\<open>img-\<close>, the decimal digits of \<open>i + 1\<close>,
  \<^verbatim>\<open>.jpg\<close>, and it is the result of the file at position \<open>i\<close> of the selection, whatever
  that file is called; the names of the results of the run are pairwise different.
\<close>

theorem sequential_names:
  assumes "selectedFiles s \<noteq> []"
  shows "length (convertedImages (final (convertImages P s))) \<le> length (selectedFiles s) \<and>
         (\<forall>i<length (convertedImages (final (convertImages P s))).
            name (convertedImages (final (convertImages P s)) ! i) =
              ''img-'' @ toString (i + 1) @ ''.jpg'' \<and>
            originalFile (convertedImages (final (convertImages P s)) ! i) = selectedFiles s ! i) \<and>
         distinct (map name (convertedImages (final (convertImages P s))))"
proof -
  let ?rs = "convertedImages (final (convertImages P s))"
  note facts = run_facts [OF assms, of P]
  have names: "name (?rs ! i) = ''img-'' @ toString (i + 1) @ ''.jpg'' \<and>
               originalFile (?rs ! i) = selectedFiles s ! i" if "i < length ?rs" for i
  proof -
    from facts(3) that
    have "convertWebpToJpeg P (selectedFiles s ! i) (i + 1) = Resolved (?rs ! i)"
      by simp
    then show ?thesis
      by (rule convert_Resolved)
  qed
  have "distinct (map name ?rs)"
    unfolding distinct_conv_nth
  proof (intro allI impI)
    fix i j
    assume i: "i < length (map name ?rs)" and j: "j < length (map name ?rs)" and "i \<noteq> j"
    show "map name ?rs ! i \<noteq> map name ?rs ! j"
    proof
      assume "map name ?rs ! i = map name ?rs ! j"
      with i j names [of i] names [of j]
      have "''img-'' @ toString (i + 1) @ ''.jpg'' = ''img-'' @ toString (j + 1) @ ''.jpg''"
        by simp
      then have "toString (i + 1) = toString (j + 1)"
        by simp
      then have "i + 1 = j + 1"
        by (rule toString_inj)
      with \<open>i \<noteq> j\<close> show False
        by simp
    qed
  qed
  with facts(2) names show ?thesis
    by simp
qed

theorem sequential_names_witness:
  "selectedFiles (data\<lparr>selectedFiles := [a_webp, c_WEBP]\<rparr>) \<noteq> [] \<and>
   name (convertedImages (final (convertImages example_platform
     (data\<lparr>selectedFiles := [a_webp, c_WEBP]\<rparr>))) ! 1) = ''img-2.jpg'' \<and>
   distinct (map name (convertedImages (final (convertImages example_platform
     (data\<lparr>selectedFiles := [a_webp, c_WEBP]\<rparr>)))))"
proof -
  let ?s = "data\<lparr>selectedFiles := [a_webp, c_WEBP]\<rparr>"
  have ne: "selectedFiles ?s \<noteq> []"
    by simp
  have len: "length (convertedImages (final (convertImages example_platform ?s))) = 2"
    by (simp add: example_run_two(3))
  from sequential_names [OF ne, of example_platform]
  have "\<forall>i<length (convertedImages (final (convertImages example_platform ?s))).
            name (convertedImages (final (convertImages example_platform ?s)) ! i) =
              ''img-'' @ toString (i + 1) @ ''.jpg''"
    and d: "distinct (map name (convertedImages (final (convertImages example_platform ?s))))"
    by simp_all
  with len have "name (convertedImages (final (convertImages example_platform ?s)) ! 1) =
              ''img-'' @ toString (1 + 1) @ ''.jpg''"
    by simp
  then have "name (convertedImages (final (convertImages example_platform ?s)) ! 1) = ''img-2.jpg''"
    by (simp add: toString_2)
  with ne d show ?thesis
    by simp
qed

subsection \<open>Archive exporter\<close>

lemma js_split_nonempty: "js_split c s \<noteq> []"
  by (induction s) (auto split: list.splits)

lemma hd_js_split: "hd (js_split c s) = takeWhile (\<lambda>x. x \<noteq> c) s"
  by (induction s) (auto split: list.splits simp add: js_split_nonempty)

lemma js_split_append:
  "c \<notin> set p \<Longrightarrow> js_split c (p @ c # r) = p # js_split c r"
  by (induction p) (auto split: list.splits)

lemma js_split_none: "c \<notin> set s \<Longrightarrow> js_split c s = [s]"
  by (induction s) auto

lemma payload_after_prefix:
  assumes "c \<notin> set p"
  shows "js_index (js_split c (p @ c # r)) 1 = Some (takeWhile (\<lambda>x. x \<noteq> c) r)"
proof -
  obtain x xs where "js_split c r = x # xs"
    using js_split_nonempty [of c r] by (cases "js_split c r") auto
  moreover from this have "x = takeWhile (\<lambda>x. x \<noteq> c) r"
    using hd_js_split [of c r] by simp
  ultimately show ?thesis
    using assms by (simp add: js_split_append js_index_def)
qed

lemma update_fresh: "k \<notin> fst ` set al \<Longrightarrow> AList.update k v al = al @ [(k, v)]"
  by (induction al) auto

lemma fold_zip_file:
  assumes "distinct (map name imgs)" and "\<forall>image\<in>set imgs. name image \<notin> fst ` set z"
  shows "fold (\<lambda>image zip.
                 let base64Data = js_index (js_split c (url image)) 1
                 in zip_file (name image) base64Data opts zip) imgs z =
         z @ map (\<lambda>image. (name image, js_index (js_split c (url image)) 1, opts)) imgs"
  using assms
proof (induction imgs arbitrary: z)
  case Nil
  then show ?case by simp
next
  case (Cons a imgs)
  let ?z = "z @ [(name a, js_index (js_split c (url a)) 1, opts)]"
  from Cons.prems have fresh: "name a \<notin> fst ` set z"
    by simp
  from Cons.prems have "distinct (map name imgs)" and "\<forall>image\<in>set imgs. name image \<notin> fst ` set ?z"
    by (auto simp add: image_iff)
  from Cons.IH [OF this] fresh show ?case
    by (simp add: zip_file_def update_fresh)
qed

lemma generateAsync_entries:
  assumes "\<forall>image\<in>set imgs. entry_bytes (data_of image) opts = Inr (raw image)"
  shows "generateAsync (map (\<lambda>image. (name image, data_of image, opts)) imgs) =
         Inr (map (\<lambda>image. (name image, raw image)) imgs)"
  using assms by (induction imgs) simp_all

subsection \<open>Base64\<close>

lemma b64_length: "length b64_alphabet = 64"
  by (simp add: b64_alphabet_def)

lemma b64_distinct: "distinct b64_alphabet"
  by code_simp

lemma b64_index_char: "n < 64 \<Longrightarrow> b64_index (b64_char n) = Some n"
  unfolding b64_index_def b64_char_def
  using map_of_zip_nth [of b64_alphabet "[0..<64]" n]
  by (simp add: b64_length b64_distinct)

lemma b64_pad: "CHR ''='' \<notin> set b64_alphabet" "CHR '','' \<notin> set b64_alphabet"
  by code_simp+

lemma b64_char_in: "n < 64 \<Longrightarrow> b64_char n \<in> set b64_alphabet"
  by (simp add: b64_char_def b64_length)


lemma b64_char_not_pad: "n < 64 \<Longrightarrow> b64_char n \<noteq> CHR ''=''" "n < 64 \<Longrightarrow> b64_char n \<noteq> CHR '',''"
  using b64_char_in [of n] b64_pad by auto

lemma decode_quad_3:
  assumes "e1 < 64" "e2 < 64" "e3 < 64" "e4 < 64"
  shows "decode_quad (b64_char e1) (b64_char e2) (b64_char e3) (b64_char e4) =
         Some [e1 * 4 + e2 div 16, (e2 mod 16) * 16 + e3 div 4, (e3 mod 4) * 64 + e4]"
  using assms by (simp add: decode_quad_def b64_index_char b64_char_not_pad)

lemma decode_quad_2:
  assumes "e1 < 64" "e2 < 64" "e3 < 64"
  shows "decode_quad (b64_char e1) (b64_char e2) (b64_char e3) CHR ''='' =
         Some [e1 * 4 + e2 div 16, (e2 mod 16) * 16 + e3 div 4]"
  using assms by (simp add: decode_quad_def b64_index_char b64_char_not_pad)

lemma decode_quad_1:
  assumes "e1 < 64" "e2 < 64"
  shows "decode_quad (b64_char e1) (b64_char e2) CHR ''='' CHR ''='' = Some [e1 * 4 + e2 div 16]"
  using assms by (simp add: decode_quad_def b64_index_char)

lemma div_16_bound: "(b::nat) < 256 \<Longrightarrow> b div 16 < 16"
  by (rule less_mult_imp_div_less) simp
lemma div_64_bound: "(c::nat) < 256 \<Longrightarrow> c div 64 < 4"
  by (rule less_mult_imp_div_less) simp
lemma div_4_bound: "(a::nat) < 256 \<Longrightarrow> a div 4 < 64"
  by (rule less_mult_imp_div_less) simp

lemma split_16: "(y::nat) < 16 \<Longrightarrow> (x * 16 + y) div 16 = x" "(y::nat) < 16 \<Longrightarrow> (x * 16 + y) mod 16 = y"
  by simp_all
lemma split_4: "(z::nat) < 4 \<Longrightarrow> (y * 4 + z) div 4 = y" "(z::nat) < 4 \<Longrightarrow> (y * 4 + z) mod 4 = z"
  by simp_all
lemma sextet_bound: "(x::nat) < 4 \<Longrightarrow> y < 16 \<Longrightarrow> x * 16 + y < 64" "(y::nat) < 16 \<Longrightarrow> z < 4 \<Longrightarrow> y * 4 + z < 64"
  by simp_all


lemma encode_group_3:
  fixes a b c :: nat
  assumes "a < 256" "b < 256" "c < 256"
  shows "decode_quad (b64_char (a div 4)) (b64_char ((a mod 4) * 16 + b div 16))
           (b64_char ((b mod 16) * 4 + c div 64)) (b64_char (c mod 64)) = Some [a, b, c]"
    and "CHR '','' \<notin> set [b64_char (a div 4), b64_char ((a mod 4) * 16 + b div 16),
           b64_char ((b mod 16) * 4 + c div 64), b64_char (c mod 64)]"
proof -
  define e1 e2 e3 e4 where "e1 = a div 4" and "e2 = (a mod 4) * 16 + b div 16"
    and "e3 = (b mod 16) * 4 + c div 64" and "e4 = c mod 64"
  have lt: "e1 < 64" "e2 < 64" "e3 < 64" "e4 < 64"
    unfolding e1_def e2_def e3_def e4_def
    using assms by (simp_all add: div_4_bound sextet_bound div_16_bound div_64_bound)
  have "e1 * 4 + e2 div 16 = a" "(e2 mod 16) * 16 + e3 div 4 = b" "(e3 mod 4) * 64 + e4 = c"
    unfolding e1_def e2_def e3_def e4_def
    using assms by (simp_all add: split_16 split_4 div_16_bound div_64_bound)
  with decode_quad_3 [OF lt]
  show "decode_quad (b64_char (a div 4)) (b64_char ((a mod 4) * 16 + b div 16))
           (b64_char ((b mod 16) * 4 + c div 64)) (b64_char (c mod 64)) = Some [a, b, c]"
    unfolding e1_def e2_def e3_def e4_def by (simp only:)
  from b64_char_not_pad(2) [OF lt(1)] b64_char_not_pad(2) [OF lt(2)]
    b64_char_not_pad(2) [OF lt(3)] b64_char_not_pad(2) [OF lt(4)]
  show "CHR '','' \<notin> set [b64_char (a div 4), b64_char ((a mod 4) * 16 + b div 16),
           b64_char ((b mod 16) * 4 + c div 64), b64_char (c mod 64)]"
    unfolding e1_def e2_def e3_def e4_def by (simp add: eq_commute)
qed

lemma encode_group_2:
  fixes a b :: nat
  assumes "a < 256" "b < 256"
  shows "decode_quad (b64_char (a div 4)) (b64_char ((a mod 4) * 16 + b div 16))
           (b64_char ((b mod 16) * 4)) CHR ''='' = Some [a, b]"
    and "CHR '','' \<notin> set [b64_char (a div 4), b64_char ((a mod 4) * 16 + b div 16),
           b64_char ((b mod 16) * 4), CHR ''='']"
proof -
  define e1 e2 e3 where "e1 = a div 4" and "e2 = (a mod 4) * 16 + b div 16"
    and "e3 = (b mod 16) * 4"
  have lt: "e1 < 64" "e2 < 64" "e3 < 64"
    unfolding e1_def e2_def e3_def
    using assms sextet_bound(2) [of "b mod 16" 0]
    by (simp_all add: div_4_bound sextet_bound div_16_bound)
  have "e1 * 4 + e2 div 16 = a" "(e2 mod 16) * 16 + e3 div 4 = b"
    unfolding e1_def e2_def e3_def
    using assms by (simp_all add: split_16 div_16_bound)
  with decode_quad_2 [OF lt]
  show "decode_quad (b64_char (a div 4)) (b64_char ((a mod 4) * 16 + b div 16))
           (b64_char ((b mod 16) * 4)) CHR ''='' = Some [a, b]"
    unfolding e1_def e2_def e3_def by (simp only:)
  from b64_char_not_pad(2) [OF lt(1)] b64_char_not_pad(2) [OF lt(2)] b64_char_not_pad(2) [OF lt(3)]
  show "CHR '','' \<notin> set [b64_char (a div 4), b64_char ((a mod 4) * 16 + b div 16),
           b64_char ((b mod 16) * 4), CHR ''='']"
    unfolding e1_def e2_def e3_def by (simp add: eq_commute)
qed

lemma encode_group_1:
  fixes a :: nat
  assumes "a < 256"
  shows "decode_quad (b64_char (a div 4)) (b64_char ((a mod 4) * 16)) CHR ''='' CHR ''='' = Some [a]"
    and "CHR '','' \<notin> set [b64_char (a div 4), b64_char ((a mod 4) * 16), CHR ''='', CHR ''='']"
proof -
  define e1 e2 where "e1 = a div 4" and "e2 = (a mod 4) * 16"
  have lt: "e1 < 64" "e2 < 64"
    unfolding e1_def e2_def
    using assms sextet_bound(1) [of "a mod 4" 0] by (simp_all add: div_4_bound)
  have "e1 * 4 + e2 div 16 = a"
    unfolding e1_def e2_def by simp
  with decode_quad_1 [OF lt]
  show "decode_quad (b64_char (a div 4)) (b64_char ((a mod 4) * 16)) CHR ''='' CHR ''='' = Some [a]"
    unfolding e1_def e2_def by (simp only:)
  from b64_char_not_pad(2) [OF lt(1)] b64_char_not_pad(2) [OF lt(2)]
  show "CHR '','' \<notin> set [b64_char (a div 4), b64_char ((a mod 4) * 16), CHR ''='', CHR ''='']"
    unfolding e1_def e2_def by (simp add: eq_commute)
qed

lemma base64_roundtrip:
  "\<forall>b\<in>set bs. b < 256 \<Longrightarrow> base64_decode (base64_encode bs) = Inr bs"
proof (induction bs rule: base64_encode.induct)
  case (1 a b c rest)
  then have lt: "a < 256" "b < 256" "c < 256" and rest: "\<forall>b\<in>set rest. b < 256"
    by simp_all
  from "1.IH" [OF rest] encode_group_3(1) [OF lt] show ?case
    by (simp only: base64_encode.simps base64_decode.simps append_Cons append_Nil
        option.case sum.case)
next
  case (2 a b)
  then have lt: "a < 256" "b < 256"
    by simp_all
  from encode_group_2(1) [OF lt] show ?case
    by (simp only: base64_encode.simps base64_decode.simps append_Cons append_Nil
        option.case sum.case)
next
  case (3 a)
  then have lt: "a < 256"
    by simp
  from encode_group_1(1) [OF lt] show ?case
    by (simp only: base64_encode.simps base64_decode.simps append_Cons append_Nil
        option.case sum.case)
next
  case 4
  show ?case by (simp add: base64_encode.simps base64_decode.simps)
qed

lemma base64_encode_no_comma:
  "\<forall>b\<in>set bs. b < 256 \<Longrightarrow> CHR '','' \<notin> set (base64_encode bs)"
proof (induction bs rule: base64_encode.induct)
  case (1 a b c rest)
  then have lt: "a < 256" "b < 256" "c < 256" and rest: "\<forall>b\<in>set rest. b < 256"
    by simp_all
  from "1.IH" [OF rest] encode_group_3(2) [OF lt] show ?case
    by (simp only: base64_encode.simps set_append Un_iff) simp
next
  case (2 a b)
  then have lt: "a < 256" "b < 256"
    by simp_all
  from encode_group_2(2) [OF lt] show ?case
    by (simp only: base64_encode.simps simp_thms)
next
  case (3 a)
  then have lt: "a < 256"
    by simp
  from encode_group_1(2) [OF lt] show ?case
    by (simp only: base64_encode.simps simp_thms)
next
  case 4
  show ?case by (simp add: base64_encode.simps base64_decode.simps)
qed

lemma entry_of_data_url:
  assumes "CHR '','' \<notin> set header" and "\<forall>b\<in>set bs. b < 256"
  shows "entry_bytes (js_index (js_split CHR '','' (header @ CHR '','' # base64_encode bs)) 1)
           \<lparr>base64 = True\<rparr> = Inr bs"
proof -
  from base64_encode_no_comma [OF assms(2)]
  have "takeWhile (\<lambda>x. x \<noteq> CHR '','') (base64_encode bs) = base64_encode bs"
    by (auto simp add: takeWhile_eq_all_conv)
  with payload_after_prefix [OF assms(1), of "base64_encode bs"]
  have "js_index (js_split CHR '','' (header @ CHR '','' # base64_encode bs)) 1 =
      Some (base64_encode bs)"
    by simp
  with base64_roundtrip [OF assms(2)] show ?thesis
    by (simp add: entry_bytes_def)
qed

subsection \<open>Archive exporter, continued\<close>

lemma download_empty: "convertedImages s = [] \<Longrightarrow> downloadAllImages B s = (s, [])"
  by (simp add: downloadAllImages_def)

lemma export_archive:
  assumes names: "distinct (map name (convertedImages s))"
    and dec: "\<forall>image\<in>set (convertedImages s).
                entry_bytes (js_index (js_split CHR '','' (url image)) 1) \<lparr>base64 = True\<rparr> =
                  Inr (raw image)"
  shows "generateAsync
           (fold (\<lambda>image zip.
                    let base64Data = js_index (js_split CHR '','' (url image)) 1
                    in zip_file (name image) base64Data \<lparr>base64 = True\<rparr> zip)
                 (convertedImages s) JSZip_new) =
         Inr (map (\<lambda>image. (name image, raw image)) (convertedImages s))"
proof -
  have "fold (\<lambda>image zip.
                 let base64Data = js_index (js_split CHR '','' (url image)) 1
                 in zip_file (name image) base64Data \<lparr>base64 = True\<rparr> zip)
             (convertedImages s) JSZip_new =
        map (\<lambda>image. (name image, js_index (js_split CHR '','' (url image)) 1, \<lparr>base64 = True\<rparr>))
          (convertedImages s)"
    using fold_zip_file [OF names, of "[]" "CHR '',''" "\<lparr>base64 = True\<rparr>"]
    by (simp add: JSZip_new_def)
  moreover have "generateAsync
      (map (\<lambda>image. (name image, js_index (js_split CHR '','' (url image)) 1, \<lparr>base64 = True\<rparr>))
         (convertedImages s)) =
      Inr (map (\<lambda>image. (name image, raw image)) (convertedImages s))"
    using dec by (rule generateAsync_entries)
  ultimately show ?thesis
    by (simp only:)
qed

lemma download_success:
  assumes ne: "convertedImages s \<noteq> []"
    and names: "distinct (map name (convertedImages s))"
    and dec: "\<forall>image\<in>set (convertedImages s).
                entry_bytes (js_index (js_split CHR '','' (url image)) 1) \<lparr>base64 = True\<rparr> =
                  Inr (raw image)"
    and blob: "createObjectURL B (map (\<lambda>image. (name image, raw image)) (convertedImages s)) = Inr zipUrl"
    and trigger: "appendChild B \<lparr>href = zipUrl, download = ''converted_images.zip''\<rparr> = None"
      "click B \<lparr>href = zipUrl, download = ''converted_images.zip''\<rparr> = None"
      "removeChild B \<lparr>href = zipUrl, download = ''converted_images.zip''\<rparr> = None"
  shows "downloadAllImages B s =
         (s, [ObjectURLCreated (map (\<lambda>image. (name image, raw image)) (convertedImages s)) zipUrl,
              DownloadStarted \<lparr>href = zipUrl, download = ''converted_images.zip''\<rparr>,
              ObjectURLRevoked zipUrl])"
  using ne blob trigger export_archive [OF names dec]
  by (simp add: downloadAllImages_def)

lemma download_click_throws:
  assumes ne: "convertedImages s \<noteq> []"
    and names: "distinct (map name (convertedImages s))"
    and dec: "\<forall>image\<in>set (convertedImages s).
                entry_bytes (js_index (js_split CHR '','' (url image)) 1) \<lparr>base64 = True\<rparr> =
                  Inr (raw image)"
    and blob: "createObjectURL B (map (\<lambda>image. (name image, raw image)) (convertedImages s)) = Inr zipUrl"
    and trigger: "appendChild B \<lparr>href = zipUrl, download = ''converted_images.zip''\<rparr> = None"
      "click B \<lparr>href = zipUrl, download = ''converted_images.zip''\<rparr> = Some message"
  shows "downloadAllImages B s =
         (s\<lparr>error := Some (''Error creating zip file: '' @ message)\<rparr>,
          [ObjectURLCreated (map (\<lambda>image. (name image, raw image)) (convertedImages s)) zipUrl])"
  using ne blob trigger export_archive [OF names dec]
  by (simp add: downloadAllImages_def)

lemma example_base64:
  "base64_encode [255, 216, 255, 217] = ''/9j/2Q==''"
  "base64_decode ''/9j/2Q=='' = Inr [255, 216, 255, 217]"
proof -
  show 1: "base64_encode [255, 216, 255, 217] = ''/9j/2Q==''"
    by (simp add: base64_encode.simps b64_char_def b64_alphabet_def)
  have "base64_decode (base64_encode [255, 216, 255, 217]) = Inr [255, 216, 255, 217]"
    by (rule base64_roundtrip) simp
  then show "base64_decode ''/9j/2Q=='' = Inr [255, 216, 255, 217]"
    by (simp only: 1)
qed

lemma example_entries:
  "\<forall>image\<in>set (convertedImages example_results).
     entry_bytes (js_index (js_split CHR '','' (url image)) 1) \<lparr>base64 = True\<rparr> =
       Inr [255, 216, 255, 217]"
  "\<forall>image\<in>set (convertedImages example_partial).
     entry_bytes (js_index (js_split CHR '','' (url image)) 1) \<lparr>base64 = True\<rparr> =
       Inr [255, 216, 255, 217]"
  by (simp_all add: example_results_def example_partial_def img_1_def img_2_def
      js_index_def entry_bytes_def example_base64)

lemma example_entry:
  "entry_bytes (js_index (js_split CHR '','' ''data:image/jpeg;base64,/9j/2Q=='') 1)
     \<lparr>base64 = True\<rparr> = Inr [255, 216, 255, 217]"
  by (simp add: js_index_def entry_bytes_def example_base64)

text \<open>
  Claim C4. With no results, \<^verbatim>\<open>downloadAllImages\<close> does nothing: the state is unchanged
  and no platform call is made. With results whose names are pairwise different (as the
  results of a run are), each with a data URL made of a header without a comma, a comma and
  the base64 text of some bytes, and when no platform call fails, it starts exactly one
  download, named \<^verbatim>\<open>converted_images.zip\<close>, of one archive that has one entry per
  result, in the order of the results, under the name of the result, whose content is
  exactly those bytes, not their base64 text; the state is unchanged. In general the text
  that is decoded is what follows the first comma of the URL, up to the next comma if there
  is one.
\<close>

theorem archive_export:
  "(convertedImages s = [] \<longrightarrow> downloadAllImages B s = (s, [])) \<and>
   (convertedImages s \<noteq> [] \<and>
    distinct (map name (convertedImages s)) \<and>
    (\<forall>image\<in>set (convertedImages s).
       CHR '','' \<notin> set (header image) \<and>
       (\<forall>b\<in>set (jpeg image). b < 256) \<and>
       url image = header image @ CHR '','' # base64_encode (jpeg image)) \<and>
    createObjectURL B (map (\<lambda>image. (name image, jpeg image)) (convertedImages s)) = Inr zipUrl \<and>
    appendChild B \<lparr>href = zipUrl, download = ''converted_images.zip''\<rparr> = None \<and>
    click B \<lparr>href = zipUrl, download = ''converted_images.zip''\<rparr> = None \<and>
    removeChild B \<lparr>href = zipUrl, download = ''converted_images.zip''\<rparr> = None \<longrightarrow>
    downloadAllImages B s =
      (s, [ObjectURLCreated (map (\<lambda>image. (name image, jpeg image)) (convertedImages s)) zipUrl,
           DownloadStarted \<lparr>href = zipUrl, download = ''converted_images.zip''\<rparr>,
           ObjectURLRevoked zipUrl])) \<and>
   (CHR '','' \<notin> set scheme \<longrightarrow>
    js_index (js_split CHR '','' (scheme @ CHR '','' # payload)) 1 =
      Some (takeWhile (\<lambda>x. x \<noteq> CHR '','') payload))"
proof (intro conjI impI)
  assume "convertedImages s = []"
  then show "downloadAllImages B s = (s, [])"
    by (rule download_empty)
next
  assume a: "convertedImages s \<noteq> [] \<and>
    distinct (map name (convertedImages s)) \<and>
    (\<forall>image\<in>set (convertedImages s).
       CHR '','' \<notin> set (header image) \<and>
       (\<forall>b\<in>set (jpeg image). b < 256) \<and>
       url image = header image @ CHR '','' # base64_encode (jpeg image)) \<and>
    createObjectURL B (map (\<lambda>image. (name image, jpeg image)) (convertedImages s)) = Inr zipUrl \<and>
    appendChild B \<lparr>href = zipUrl, download = ''converted_images.zip''\<rparr> = None \<and>
    click B \<lparr>href = zipUrl, download = ''converted_images.zip''\<rparr> = None \<and>
    removeChild B \<lparr>href = zipUrl, download = ''converted_images.zip''\<rparr> = None"
  have dec: "\<forall>image\<in>set (convertedImages s).
      entry_bytes (js_index (js_split CHR '','' (url image)) 1) \<lparr>base64 = True\<rparr> =
        Inr (jpeg image)"
  proof
    fix image assume "image \<in> set (convertedImages s)"
    with a have h: "CHR '','' \<notin> set (header image)" and b: "\<forall>b\<in>set (jpeg image). b < 256"
      and u: "url image = header image @ CHR '','' # base64_encode (jpeg image)"
      by simp_all
    from entry_of_data_url [OF h b]
    show "entry_bytes (js_index (js_split CHR '','' (url image)) 1) \<lparr>base64 = True\<rparr> =
        Inr (jpeg image)"
      unfolding u .
  qed
  from a have "convertedImages s \<noteq> []" "distinct (map name (convertedImages s))"
    "createObjectURL B (map (\<lambda>image. (name image, jpeg image)) (convertedImages s)) = Inr zipUrl"
    "appendChild B \<lparr>href = zipUrl, download = ''converted_images.zip''\<rparr> = None"
    "click B \<lparr>href = zipUrl, download = ''converted_images.zip''\<rparr> = None"
    "removeChild B \<lparr>href = zipUrl, download = ''converted_images.zip''\<rparr> = None"
    by simp_all
  from download_success [OF this(1,2) dec this(3-6)]
  show "downloadAllImages B s =
      (s, [ObjectURLCreated (map (\<lambda>image. (name image, jpeg image)) (convertedImages s)) zipUrl,
           DownloadStarted \<lparr>href = zipUrl, download = ''converted_images.zip''\<rparr>,
           ObjectURLRevoked zipUrl])" .
next
  assume "CHR '','' \<notin> set scheme"
  then show "js_index (js_split CHR '','' (scheme @ CHR '','' # payload)) 1 =
      Some (takeWhile (\<lambda>x. x \<noteq> CHR '','') payload)"
    by (rule payload_after_prefix)
qed

theorem archive_export_witness:
  "downloadAllImages example_browser data = (data, []) \<and>
   downloadAllImages example_browser example_results =
     (example_results,
      [ObjectURLCreated [(''img-1.jpg'', [255, 216, 255, 217]),
                         (''img-2.jpg'', [255, 216, 255, 217])] ''blob:1'',
       DownloadStarted \<lparr>href = ''blob:1'', download = ''converted_images.zip''\<rparr>,
       ObjectURLRevoked ''blob:1'']) \<and>
   js_index (js_split CHR '','' (''data:image/jpeg;base64'' @ CHR '','' # ''/9j/2Q=='')) 1 =
     Some ''/9j/2Q==''"
proof -
  let ?header = "\<lambda>image::conversion_result. ''data:image/jpeg;base64''"
  let ?jpeg = "\<lambda>image::conversion_result. [255, 216, 255, 217 :: nat]"
  have 1: "convertedImages data = []"
    by (simp add: data_def)
  have 2: "convertedImages example_results \<noteq> [] \<and>
    distinct (map name (convertedImages example_results)) \<and>
    (\<forall>image\<in>set (convertedImages example_results).
       CHR '','' \<notin> set (?header image) \<and>
       (\<forall>b\<in>set (?jpeg image). b < 256) \<and>
       url image = ?header image @ CHR '','' # base64_encode (?jpeg image)) \<and>
    createObjectURL example_browser
      (map (\<lambda>image. (name image, ?jpeg image)) (convertedImages example_results)) = Inr ''blob:1'' \<and>
    appendChild example_browser \<lparr>href = ''blob:1'', download = ''converted_images.zip''\<rparr> = None \<and>
    click example_browser \<lparr>href = ''blob:1'', download = ''converted_images.zip''\<rparr> = None \<and>
    removeChild example_browser \<lparr>href = ''blob:1'', download = ''converted_images.zip''\<rparr> = None"
    by (simp add: example_results_def img_1_def img_2_def example_browser_def example_base64)
  have 3: "CHR '','' \<notin> set ''data:image/jpeg;base64''"
    by simp
  note empty = archive_export [of data example_browser ?header ?jpeg "''blob:1''"
      "''data:image/jpeg;base64''" "''/9j/2Q==''"]
  note full = archive_export [of example_results example_browser ?header ?jpeg "''blob:1''"
      "''data:image/jpeg;base64''" "''/9j/2Q==''"]
  from conjunct1 [OF empty] 1 have "downloadAllImages example_browser data = (data, [])"
    by (rule mp)
  moreover from conjunct1 [OF conjunct2 [OF full]] 2
  have "downloadAllImages example_browser example_results =
      (example_results,
       [ObjectURLCreated (map (\<lambda>image. (name image, ?jpeg image)) (convertedImages example_results)) ''blob:1'',
        DownloadStarted \<lparr>href = ''blob:1'', download = ''converted_images.zip''\<rparr>,
        ObjectURLRevoked ''blob:1''])"
    by (rule mp)
  moreover from conjunct2 [OF conjunct2 [OF full]] 3
  have "js_index (js_split CHR '','' (''data:image/jpeg;base64'' @ CHR '','' # ''/9j/2Q=='')) 1 =
      Some (takeWhile (\<lambda>x. x \<noteq> CHR '','') ''/9j/2Q=='')"
    by (rule mp)
  ultimately show ?thesis
    by (simp add: example_results_def img_1_def img_2_def)
qed

lemma download_frame:
  "fst (downloadAllImages B s) = s \<or>
   (\<exists>m. fst (downloadAllImages B s) = s\<lparr>error := Some (''Error creating zip file: '' @ m)\<rparr>)"
  by (simp add: downloadAllImages_def Let_def split: sum.split option.split) blast

lemma download_fields:
  "selectedFiles (fst (downloadAllImages B s)) = selectedFiles s"
  "convertedImages (fst (downloadAllImages B s)) = convertedImages s"
  "isConverting (fst (downloadAllImages B s)) = isConverting s"
  using download_frame [of B s] by auto

lemma awaits_state:
  assumes "selectedFiles s \<noteq> []" and "k < length (awaits (convertImages P s))"
  shows "snd (awaits (convertImages P s) ! k) =
           (started s)\<lparr>convertedImages := take k (convertedImages (final (convertImages P s)))\<rparr>"
    and "k \<le> length (convertedImages (final (convertImages P s)))"
proof -
  from run_facts(6) [OF assms(1), of P] assms(2)
  show "snd (awaits (convertImages P s) ! k) =
           (started s)\<lparr>convertedImages := take k (convertedImages (final (convertImages P s)))\<rparr>"
    by simp
  from run_facts(5) [OF assms(1), of P] assms(2)
  show "k \<le> length (convertedImages (final (convertImages P s)))"
    by simp
qed

lemma example_selection_run:
  "awaits (convertImages example_platform example_selection) =
     [(a_webp, \<lparr>selectedFiles = [a_webp, c_WEBP], convertedImages = [], isConverting = True, error = None\<rparr>),
      (c_WEBP, \<lparr>selectedFiles = [a_webp, c_WEBP], convertedImages = [img_1], isConverting = True, error = None\<rparr>)]"
  "final (convertImages example_platform example_selection) = example_results"
proof -
  have eq: "example_selection = data\<lparr>selectedFiles := [a_webp, c_WEBP]\<rparr>"
    by (simp add: example_selection_def data_def)
  show "awaits (convertImages example_platform example_selection) =
     [(a_webp, \<lparr>selectedFiles = [a_webp, c_WEBP], convertedImages = [], isConverting = True, error = None\<rparr>),
      (c_WEBP, \<lparr>selectedFiles = [a_webp, c_WEBP], convertedImages = [img_1], isConverting = True, error = None\<rparr>)]"
    unfolding eq by (rule example_run_two(1))
  show "final (convertImages example_platform example_selection) = example_results"
    unfolding eq example_results_def by (rule example_run_two(3))
qed

subsection \<open>A failure of the render step\<close>

lemma example_limited:
  "convertWebpToJpeg limited_platform a_webp (Suc 0) = Resolved img_1"
  "convertWebpToJpeg limited_platform c_WEBP (Suc (Suc 0)) = Pending"
  by (simp_all add: convertWebpToJpeg_def limited_platform_def example_platform_def
      createElement_canvas_def a_webp_def c_WEBP_def img_1_def toString_1)

text \<open>
  Claim C1 at a concrete run. Two files are selected; both are read and decoded. The second
  image is 8000 by 6000 pixels, and the platform gives a canvas of that size no drawing
  context, so \<^verbatim>\<open>ctx.drawImage\<close> of line 117 throws. That statement runs in the load
  handler of the image before the \<^verbatim>\<open>try\<close> of line 120: the promise of the conversion is
  neither resolved nor rejected. The run stays at its second \<^verbatim>\<open>await\<close>:
  \<^verbatim>\<open>convertImages\<close> does not return, \<^verbatim>\<open>isConverting\<close> stays true and no error is set,
  where the claim has the batch aborted with an error.
\<close>

theorem render_failure_stalls_batch:
  "convertWebpToJpeg limited_platform c_WEBP 2 = Pending \<and>
   map fst (awaits (convertImages limited_platform example_selection)) = [a_webp, c_WEBP] \<and>
   \<not> returned (convertImages limited_platform example_selection) \<and>
   final (convertImages limited_platform example_selection) = example_stuck \<and>
   isConverting example_stuck \<and>
   error example_stuck = None"
proof -
  have 1: "selectedFiles example_selection = [a_webp] @ c_WEBP # []"
    by (simp add: example_selection_def)
  have 2: "length [img_1] = length [a_webp]"
    by simp
  have 3: "\<forall>j<length [a_webp].
      convertWebpToJpeg limited_platform ([a_webp] ! j) (j + 1) = Resolved ([img_1] ! j)"
    by (simp add: example_limited)
  have 4: "convertWebpToJpeg limited_platform c_WEBP (length [a_webp] + 1) = Pending"
    by (simp add: example_limited)
  note run = run_first_unresolved [OF 1 2 3 4 disjI1 [OF refl]]
  have "convertWebpToJpeg limited_platform c_WEBP 2 = Pending"
    using example_limited(2) by (simp add: numeral_2_eq_2)
  moreover from run(1)
  have "map fst (awaits (convertImages limited_platform example_selection)) = [a_webp, c_WEBP]"
    by (simp add: upt_conv_Cons)
  moreover from run(4) have "\<not> returned (convertImages limited_platform example_selection)"
    by simp
  moreover from run(5)
  have "final (convertImages limited_platform example_selection) = example_stuck"
    by (simp add: started_def example_selection_def example_stuck_def)
  moreover have "isConverting example_stuck" "error example_stuck = None"
    by (simp_all add: example_stuck_def)
  ultimately show ?thesis
    by (intro conjI)
qed

subsection \<open>Results while a run is in flight\<close>

text \<open>
  Claim C9, as the code has it. At every suspension of a run the busy flag is set and
  \<^verbatim>\<open>convertedImages\<close> already holds the results of all the files converted so far, so the
  results section of the template, which is rendered whenever \<^verbatim>\<open>convertedImages\<close> is not
  empty, is shown from the second suspension on, while the run is still in flight.
\<close>

theorem results_surface_as_they_complete:
  assumes "selectedFiles s \<noteq> []" and "k < length (awaits (convertImages P s))"
  shows "isConverting (snd (awaits (convertImages P s) ! k)) \<and>
         convertedImages (snd (awaits (convertImages P s) ! k)) =
           take k (convertedImages (final (convertImages P s))) \<and>
         length (convertedImages (snd (awaits (convertImages P s) ! k))) = k \<and>
         (results_shown (snd (awaits (convertImages P s) ! k)) \<longleftrightarrow> 0 < k)"
  using awaits_state [OF assms] by (simp add: started_def results_shown_def)

theorem results_surface_as_they_complete_witness:
  "selectedFiles example_selection \<noteq> [] \<and>
   1 < length (awaits (convertImages example_platform example_selection)) \<and>
   convertedImages (snd (awaits (convertImages example_platform example_selection) ! 1)) = [img_1] \<and>
   results_shown (snd (awaits (convertImages example_platform example_selection) ! 1))"
proof -
  have 1: "selectedFiles example_selection \<noteq> []"
    by (simp add: example_selection_def)
  have 2: "1 < length (awaits (convertImages example_platform example_selection))"
    by (simp add: example_selection_run)
  from results_surface_as_they_complete [OF 1 2] 1 2 show ?thesis
    by (simp add: example_selection_run example_results_def)
qed

text \<open>
  Claim C9 as stated fails: in the run over two files that both convert, the state at the
  second suspension has the busy flag set and the results section shown.
\<close>

theorem results_hidden_in_flight_counterexample:
  "isConverting (snd (awaits (convertImages example_platform example_selection) ! 1)) \<and>
   results_shown (snd (awaits (convertImages example_platform example_selection) ! 1))"
  by (simp add: example_selection_run results_shown_def)

lemma run_selectedFiles:
  "selectedFiles (final (convertImages P s)) = selectedFiles s"
  "x \<in> set (awaits (convertImages P s)) \<Longrightarrow> selectedFiles (snd x) = selectedFiles s"
proof -
  show "selectedFiles (final (convertImages P s)) = selectedFiles s"
    by (cases "selectedFiles s = []") (simp_all add: convertImages_empty run_facts(1))
  assume "x \<in> set (awaits (convertImages P s))"
  then obtain k where k: "k < length (awaits (convertImages P s))"
    and x: "x = awaits (convertImages P s) ! k"
    by (auto simp add: in_set_conv_nth)
  then have ne: "selectedFiles s \<noteq> []"
    by (auto simp add: convertImages_empty)
  from awaits_state(1) [OF ne k] x show "selectedFiles (snd x) = selectedFiles s"
    by (simp add: started_def)
qed

subsection \<open>Frame conditions\<close>

text \<open>
  Claim C10. \<^verbatim>\<open>convertImages\<close> never changes \<^verbatim>\<open>selectedFiles\<close>, neither in the state it
  ends in nor in any state during the run. \<^verbatim>\<open>downloadAllImages\<close> leaves
  \<^verbatim>\<open>selectedFiles\<close>, \<^verbatim>\<open>convertedImages\<close> and \<^verbatim>\<open>isConverting\<close> as they are: it returns
  the state unchanged, or, when a step of the export throws, the state with only
  \<^verbatim>\<open>error\<close> set to the message.
\<close>

theorem frame_conditions:
  "selectedFiles (final (convertImages P s)) = selectedFiles s \<and>
   (\<forall>x\<in>set (awaits (convertImages P s)). selectedFiles (snd x) = selectedFiles s) \<and>
   selectedFiles (fst (downloadAllImages B s)) = selectedFiles s \<and>
   convertedImages (fst (downloadAllImages B s)) = convertedImages s \<and>
   isConverting (fst (downloadAllImages B s)) = isConverting s \<and>
   (fst (downloadAllImages B s) = s \<or>
    (\<exists>m. fst (downloadAllImages B s) = s\<lparr>error := Some (''Error creating zip file: '' @ m)\<rparr>))"
proof (intro conjI ballI)
  show "selectedFiles (final (convertImages P s)) = selectedFiles s"
    by (rule run_selectedFiles(1))
  show "selectedFiles (snd x) = selectedFiles s" if "x \<in> set (awaits (convertImages P s))" for x
    using that by (rule run_selectedFiles(2))
  show "selectedFiles (fst (downloadAllImages B s)) = selectedFiles s"
    by (rule download_fields(1))
  show "convertedImages (fst (downloadAllImages B s)) = convertedImages s"
    by (rule download_fields(2))
  show "isConverting (fst (downloadAllImages B s)) = isConverting s"
    by (rule download_fields(3))
  show "fst (downloadAllImages B s) = s \<or>
    (\<exists>m. fst (downloadAllImages B s) = s\<lparr>error := Some (''Error creating zip file: '' @ m)\<rparr>)"
    by (rule download_frame)
qed

lemma example_blocked:
  "downloadAllImages blocked_browser example_results =
     (example_results\<lparr>error := Some ''Error creating zip file: blocked''\<rparr>,
      [ObjectURLCreated [(''img-1.jpg'', [255, 216, 255, 217]),
                         (''img-2.jpg'', [255, 216, 255, 217])] ''blob:1''])"
proof -
  have "convertedImages example_results \<noteq> []" "distinct (map name (convertedImages example_results))"
    by (simp_all add: example_results_def img_1_def img_2_def)
  from download_click_throws [OF this example_entries(1), of blocked_browser "''blob:1''" "''blocked''"]
  show ?thesis
    by (simp add: blocked_browser_def example_browser_def)
      (simp add: example_results_def img_1_def img_2_def)
qed

theorem frame_conditions_witness:
  "fst (downloadAllImages blocked_browser example_results) =
     example_results\<lparr>error := Some ''Error creating zip file: blocked''\<rparr> \<and>
   selectedFiles (fst (downloadAllImages blocked_browser example_results)) = [a_webp, c_WEBP] \<and>
   convertedImages (fst (downloadAllImages blocked_browser example_results)) = [img_1, img_2] \<and>
   selectedFiles (snd (awaits (convertImages example_platform example_selection) ! 1)) =
     [a_webp, c_WEBP]"
proof -
  have "awaits (convertImages example_platform example_selection) ! 1 \<in>
      set (awaits (convertImages example_platform example_selection))"
    by (simp add: example_selection_run)
  with conjunct1 [OF conjunct2
      [OF frame_conditions [of example_platform example_selection blocked_browser]]]
  have "selectedFiles (snd (awaits (convertImages example_platform example_selection) ! 1)) =
      selectedFiles example_selection"
    by (rule bspec)
  moreover from frame_conditions [of example_platform example_results blocked_browser]
  have "selectedFiles (fst (downloadAllImages blocked_browser example_results)) =
          selectedFiles example_results"
    by (elim conjE)
  moreover from frame_conditions [of example_platform example_results blocked_browser]
  have "convertedImages (fst (downloadAllImages blocked_browser example_results)) =
          convertedImages example_results"
    by (elim conjE)
  moreover have "fst (downloadAllImages blocked_browser example_results) =
     example_results\<lparr>error := Some ''Error creating zip file: blocked''\<rparr>"
    by (simp add: example_blocked)
  moreover have "selectedFiles example_selection = [a_webp, c_WEBP]"
    "selectedFiles example_results = [a_webp, c_WEBP]"
    "convertedImages example_results = [img_1, img_2]"
    by (simp_all add: example_selection_def example_results_def)
  ultimately show ?thesis
    by (simp only:)
qed

subsection \<open>Release of the object URL\<close>

text \<open>
  When the steps that trigger the download (appending the link, clicking it, removing it)
  complete without throwing, every object URL the export has created is revoked before
  \<^verbatim>\<open>downloadAllImages\<close> returns.
\<close>

lemma object_url_released_when_trigger_completes:
  assumes "\<forall>l. appendChild B l = None \<and> click B l = None \<and> removeChild B l = None"
  shows "unreleased (snd (downloadAllImages B s)) = []"
  using assms by (simp add: downloadAllImages_def Let_def split: sum.split option.split)

text \<open>
  When clicking the link throws, the object URL that was created for the archive is not
  revoked: the revocation is the last statement of the \<^verbatim>\<open>try\<close> block and is skipped.
\<close>

lemma object_url_leaked_when_click_throws:
  assumes "convertedImages s \<noteq> []"
    and "distinct (map name (convertedImages s))"
    and "\<forall>image\<in>set (convertedImages s).
           entry_bytes (js_index (js_split CHR '','' (url image)) 1) \<lparr>base64 = True\<rparr> =
             Inr (raw image)"
    and "createObjectURL B (map (\<lambda>image. (name image, raw image)) (convertedImages s)) = Inr zipUrl"
    and "appendChild B \<lparr>href = zipUrl, download = ''converted_images.zip''\<rparr> = None"
    and "click B \<lparr>href = zipUrl, download = ''converted_images.zip''\<rparr> = Some message"
  shows "unreleased (snd (downloadAllImages B s)) = [zipUrl]"
  using download_click_throws [OF assms] by simp

text \<open>
  Claim C8 at a concrete export. Two results are exported in a browser in which clicking
  the link throws. The export has created the object URL \<^verbatim>\<open>blob:1\<close> for the archive and
  returns, with the error set, without revoking it: the release is not in a
  \<^verbatim>\<open>finally\<close> clause, so it is not independent of the failure of the trigger step.
\<close>

theorem object_url_not_released:
  "snd (downloadAllImages blocked_browser example_results) =
     [ObjectURLCreated [(''img-1.jpg'', [255, 216, 255, 217]),
                        (''img-2.jpg'', [255, 216, 255, 217])] ''blob:1''] \<and>
   unreleased (snd (downloadAllImages blocked_browser example_results)) = [''blob:1''] \<and>
   error (fst (downloadAllImages blocked_browser example_results)) =
     Some ''Error creating zip file: blocked''"
  by (simp add: example_blocked)

subsection \<open>The error field\<close>

lemma example_partial_run:
  "returned (convertImages example_platform (data\<lparr>selectedFiles := [a_webp, b_webp]\<rparr>))"
  "final (convertImages example_platform (data\<lparr>selectedFiles := [a_webp, b_webp]\<rparr>)) = example_partial"
proof -
  let ?s = "data\<lparr>selectedFiles := [a_webp, b_webp]\<rparr>"
  have 1: "selectedFiles ?s = [a_webp] @ b_webp # []"
    by simp
  have 2: "length [img_1] = length [a_webp]"
    by simp
  have 3: "\<forall>j<length [a_webp]. convertWebpToJpeg example_platform ([a_webp] ! j) (j + 1) = Resolved ([img_1] ! j)"
    by (simp add: example_a)
  have 4: "convertWebpToJpeg example_platform b_webp (length [a_webp] + 1) = Rejected ''Failed to load image: b.webp''"
    by (rule example_b)
  note run = run_first_unresolved [OF 1 2 3 4 disjI2 [OF refl]]
  from run(2) show "returned (convertImages example_platform ?s)"
    by simp
  from run(3) show "final (convertImages example_platform ?s) = example_partial"
    by (simp add: started_def data_def example_partial_def)
qed

lemma example_select:
  "handleFileSelect [a_webp, b_webp] data = data\<lparr>selectedFiles := [a_webp, b_webp]\<rparr>"
  by (simp add: handleFileSelect_def is_webp_def a_webp_def b_webp_def data_def)

lemma example_session:
  "session [Select [a_webp, b_webp], Convert example_platform] data = Some example_partial"
  by (simp add: example_select example_partial_run)

lemma example_export:
  "downloadAllImages example_browser example_partial =
     (example_partial,
      [ObjectURLCreated [(''img-1.jpg'', [255, 216, 255, 217])] ''blob:1'',
       DownloadStarted \<lparr>href = ''blob:1'', download = ''converted_images.zip''\<rparr>,
       ObjectURLRevoked ''blob:1''])"
proof -
  have "convertedImages example_partial \<noteq> []" "distinct (map name (convertedImages example_partial))"
    by (simp_all add: example_partial_def)
  from download_success [OF this example_entries(2), of example_browser "''blob:1''"]
  show ?thesis
    by (simp add: example_browser_def) (simp add: example_partial_def img_1_def)
qed

text \<open>
  A new selection and a new conversion run do clear the error: it is empty after
  \<^verbatim>\<open>handleFileSelect\<close> and at every suspension of a run.
\<close>

lemma error_cleared_by_selection_and_run:
  "error (handleFileSelect files s) = None"
  "x \<in> set (awaits (convertImages P s)) \<Longrightarrow> error (snd x) = None"
proof -
  show "error (handleFileSelect files s) = None"
    by (simp add: handleFileSelect_def)
  assume "x \<in> set (awaits (convertImages P s))"
  then obtain k where k: "k < length (awaits (convertImages P s))"
    and x: "x = awaits (convertImages P s) ! k"
    by (auto simp add: in_set_conv_nth)
  then have ne: "selectedFiles s \<noteq> []"
    by (auto simp add: convertImages_empty)
  from awaits_state(1) [OF ne k] x show "error (snd x) = None"
    by (simp add: started_def)
qed

text \<open>
  Claim C7 at a concrete session: two files are selected, the second fails to decode, and
  the results are exported. The export succeeds (the download is started, the object URL is
  revoked), and the component state after it still carries the error of the conversion:
  \<^verbatim>\<open>downloadAllImages\<close> has no statement that clears \<^verbatim>\<open>error\<close>.
\<close>

theorem export_keeps_error:
  "session [Select [a_webp, b_webp], Convert example_platform] data = Some example_partial \<and>
   error example_partial = Some ''Error converting images: Failed to load image: b.webp'' \<and>
   downloadAllImages example_browser example_partial =
     (example_partial,
      [ObjectURLCreated [(''img-1.jpg'', [255, 216, 255, 217])] ''blob:1'',
       DownloadStarted \<lparr>href = ''blob:1'', download = ''converted_images.zip''\<rparr>,
       ObjectURLRevoked ''blob:1'']) \<and>
   session [Select [a_webp, b_webp], Convert example_platform, Export example_browser] data =
     Some example_partial"
proof -
  have "error example_partial = Some ''Error converting images: Failed to load image: b.webp''"
    by (simp add: example_partial_def)
  moreover have "session [Select [a_webp, b_webp], Convert example_platform, Export example_browser] data =
     Some example_partial"
    by (simp add: example_select example_partial_run example_export)
  ultimately show ?thesis
    using example_session example_export by (intro conjI)
qed

subsection \<open>The busy flag\<close>

lemma perform_idle:
  assumes "\<not> isConverting s" and "perform a s = Some s'"
  shows "\<not> isConverting s'"
proof (cases a)
  case (Select files)
  with assms show ?thesis
    by (auto simp add: handleFileSelect_def)
next
  case (Convert P)
  show ?thesis
  proof (cases "selectedFiles s = []")
    case True
    with assms Convert show ?thesis
      by (auto simp add: convertImages_empty)
  next
    case False
    from assms(2) Convert have "returned (convertImages P s)" and "s' = final (convertImages P s)"
      by (auto simp add: Let_def split: if_splits)
    with run_facts(7) [OF False, of P] show ?thesis
      by simp
  qed
next
  case (Export B)
  with assms download_fields(3) [of B s] show ?thesis
    by auto
qed

lemma session_idle:
  "\<not> isConverting s \<Longrightarrow> session acts s = Some s' \<Longrightarrow> \<not> isConverting s'"
proof (induction acts arbitrary: s)
  case Nil
  then show ?case by simp
next
  case (Cons a acts)
  from Cons.prems(2) obtain s1 where 1: "perform a s = Some s1" and 2: "session acts s1 = Some s'"
    by (auto split: option.splits)
  from perform_idle [OF Cons.prems(1) 1] have "\<not> isConverting s1" .
  from Cons.IH [OF this 2] show ?case .
qed

lemma awaits_busy:
  assumes "x \<in> set (awaits (convertImages P s))"
  shows "isConverting (snd x)"
proof -
  from assms obtain k where k: "k < length (awaits (convertImages P s))"
    and x: "x = awaits (convertImages P s) ! k"
    by (auto simp add: in_set_conv_nth)
  then have ne: "selectedFiles s \<noteq> []"
    by (auto simp add: convertImages_empty)
  from awaits_state(1) [OF ne k] x show ?thesis
    by (simp add: started_def)
qed

text \<open>
  Claim C5. From the initial state, after any sequence of selections, conversion runs and
  exports that have returned, \<^verbatim>\<open>isConverting\<close> is false. In a conversion run over a
  non-empty selection it is true at every suspension of the run, and false when the run
  returns, however the loop ended. The run does return when no conversion of a selected
  file stays pending forever.
\<close>

theorem isConverting_only_in_flight:
  "(session acts data = Some s \<longrightarrow> \<not> isConverting s) \<and>
   (\<forall>x\<in>set (awaits (convertImages P s0)). isConverting (snd x)) \<and>
   (selectedFiles s0 \<noteq> [] \<and> returned (convertImages P s0) \<longrightarrow>
      \<not> isConverting (final (convertImages P s0))) \<and>
   (selectedFiles s0 \<noteq> [] \<and>
    (\<forall>f\<in>set (selectedFiles s0). \<forall>k. convertWebpToJpeg P f k \<noteq> Pending) \<longrightarrow>
      returned (convertImages P s0))"
proof (intro conjI impI ballI)
  assume "session acts data = Some s"
  moreover have "\<not> isConverting data"
    by (simp add: data_def)
  ultimately show "\<not> isConverting s"
    using session_idle by blast
next
  fix x assume "x \<in> set (awaits (convertImages P s0))"
  then show "isConverting (snd x)"
    by (rule awaits_busy)
next
  assume "selectedFiles s0 \<noteq> [] \<and> returned (convertImages P s0)"
  with run_facts(7) [of s0 P] show "\<not> isConverting (final (convertImages P s0))"
    by simp
next
  assume "selectedFiles s0 \<noteq> [] \<and>
    (\<forall>f\<in>set (selectedFiles s0). \<forall>k. convertWebpToJpeg P f k \<noteq> Pending)"
  then show "returned (convertImages P s0)"
    using no_Pending_returns by blast
qed

theorem isConverting_only_in_flight_witness:
  "session [Select [a_webp, b_webp], Convert example_platform] data = Some example_partial \<and>
   \<not> isConverting example_partial \<and>
   selectedFiles example_selection \<noteq> [] \<and>
   returned (convertImages example_platform example_selection) \<and>
   \<not> isConverting (final (convertImages example_platform example_selection)) \<and>
   isConverting (snd (awaits (convertImages example_platform example_selection) ! 1))"
proof -
  note inst = isConverting_only_in_flight [of "[Select [a_webp, b_webp], Convert example_platform]"
      example_partial example_platform example_selection]
  have ne: "selectedFiles example_selection \<noteq> []"
    by (simp add: example_selection_def)
  have live: "\<forall>f\<in>set (selectedFiles example_selection). \<forall>k.
      convertWebpToJpeg example_platform f k \<noteq> Pending"
    by (simp add: convert_Pending_iff example_platform_def)
  from conjunct1 [OF inst] example_session have 1: "\<not> isConverting example_partial"
    by (rule mp)
  from conjunct2 [OF conjunct2 [OF conjunct2 [OF inst]]] ne live
  have 2: "returned (convertImages example_platform example_selection)"
    by simp
  from conjunct1 [OF conjunct2 [OF conjunct2 [OF inst]]] ne 2
  have 3: "\<not> isConverting (final (convertImages example_platform example_selection))"
    by simp
  have "awaits (convertImages example_platform example_selection) ! 1 \<in>
      set (awaits (convertImages example_platform example_selection))"
    by (simp add: example_selection_run)
  with conjunct1 [OF conjunct2 [OF inst]]
  have 4: "isConverting (snd (awaits (convertImages example_platform example_selection) ! 1))"
    by (rule bspec)
  from example_session 1 ne 2 3 4 show ?thesis
    by (intro conjI)
qed

subsection \<open>Reset of the results\<close>

text \<open>
  Claim C6. \<^verbatim>\<open>handleFileSelect\<close> empties \<^verbatim>\<open>convertedImages\<close> whatever files are picked
  and whatever it selects from them. A conversion run over a non-empty selection starts
  from empty results: at its first suspension \<^verbatim>\<open>convertedImages\<close> is empty, and nothing
  of the run depends on the results the state held before.
\<close>

theorem convertedImages_reset:
  "convertedImages (handleFileSelect files s) = [] \<and>
   (selectedFiles s \<noteq> [] \<longrightarrow>
      awaits (convertImages P s) \<noteq> [] \<and>
      convertedImages (snd (hd (awaits (convertImages P s)))) = [] \<and>
      convertImages P (s\<lparr>convertedImages := old\<rparr>) = convertImages P s)"
proof (intro conjI impI)
  show "convertedImages (handleFileSelect files s) = []"
    by (simp add: handleFileSelect_def)
next
  assume ne: "selectedFiles s \<noteq> []"
  from run_facts(4) [OF ne, of P] show nonempty: "awaits (convertImages P s) \<noteq> []" .
  then have 0: "0 < length (awaits (convertImages P s))"
    by simp
  from awaits_state(1) [OF ne 0] nonempty
  show "convertedImages (snd (hd (awaits (convertImages P s)))) = []"
    by (simp add: hd_conv_nth)
  from ne show "convertImages P (s\<lparr>convertedImages := old\<rparr>) = convertImages P s"
    by (simp add: convertImages_def)
qed

theorem convertedImages_reset_witness:
  "convertedImages (handleFileSelect [b_png] example_results) = [] \<and>
   selectedFiles (handleFileSelect [b_png] example_results) = [] \<and>
   selectedFiles example_results \<noteq> [] \<and>
   convertedImages example_results \<noteq> [] \<and>
   convertedImages (snd (hd (awaits (convertImages example_platform example_results)))) = [] \<and>
   final (convertImages example_platform example_results) = example_results"
proof -
  note inst = convertedImages_reset [of "[b_png]" example_results example_platform "[img_1, img_2]"]
  have ne: "selectedFiles example_results \<noteq> []" "convertedImages example_results \<noteq> []"
    by (simp_all add: example_results_def)
  have eq: "example_selection\<lparr>convertedImages := [img_1, img_2]\<rparr> = example_results"
    by (simp add: example_selection_def example_results_def)
  have sel: "selectedFiles (handleFileSelect [b_png] example_results) = []"
    by (simp add: handleFileSelect_def is_webp_def endsWith_def toLowerCase_def lower_char_def
        char_of_eq_iff b_png_def)
  from conjunct2 [OF inst] ne(1)
  have "convertedImages (snd (hd (awaits (convertImages example_platform example_results)))) = []"
    by simp
  moreover have "selectedFiles example_selection \<noteq> []"
    by (simp add: example_selection_def)
  with conjunct2 [OF convertedImages_reset [of "[b_png]" example_selection example_platform "[img_1, img_2]"]]
  have "convertImages example_platform (example_selection\<lparr>convertedImages := [img_1, img_2]\<rparr>) =
      convertImages example_platform example_selection"
    by (elim impE conjE)
  then have "convertImages example_platform example_results = convertImages example_platform example_selection"
    by (simp only: eq)
  then have "final (convertImages example_platform example_results) = example_results"
    by (simp add: example_selection_run)
  ultimately show ?thesis
    using conjunct1 [OF inst] sel ne by (intro conjI)
qed

end
